theory Spec2Isabelle
  imports Complex_Main "HOL-Library.Stream"
begin

section \<open>The terminal, the clock and the log file\<close>

text \<open>
  The meditation app of \<^verbatim>\<open>main.py\<close> talks to four things: the terminal it writes to,
  the keyboard it reads from, the system clock and the file \<^verbatim>\<open>meditation_log.csv\<close>.
  They are the fields of the record \<open>world\<close>; every function of the program takes a
  world and returns the world it leaves behind.

  \<^item> \<open>clock\<close>: the values that the successive reads of the system clock return
    (\<^verbatim>\<open>time.time()\<close>, \<^verbatim>\<open>datetime.now()\<close>), in seconds. Python computes with
    floats; the model computes with exact reals. What rounding does to a progress line
    is the subject of the section on double precision.
  \<^item> \<open>stdin\<close>: the lines still to be typed; \<^verbatim>\<open>input()\<close> on an empty one raises
    \<^verbatim>\<open>EOFError\<close>.
  \<^item> \<open>ctrl_c\<close>: \<open>Some k\<close> when the user presses Ctrl-C during the blocking call
    (\<^verbatim>\<open>time.sleep\<close>, \<^verbatim>\<open>input\<close>) that comes after \<open>k\<close> more of them, \<open>None\<close>
    when the user never does.
  \<^item> \<open>trace\<close>: what the program did to the terminal, oldest first.
  \<^item> \<open>log_file\<close>: the lines of the log file, \<open>None\<close> while it does not exist.
\<close>

datatype exn = KeyboardInterrupt | ValueError | ZeroDivisionError | EOFError | KeyError

text \<open>
  A text the program shows or logs. An f-string that interpolates a float keeps the
  number as a value (\<open>Interp before x after\<close>): Python's decimal rendering of a float
  is not modelled.
\<close>

datatype message = Plain string | Interp string real string

record row =
  timestamp :: real
  kind :: message
  duration_min :: real
  notes' :: string

datatype csv_line = Header | Row row

datatype event =
    Clear
  | Bell
  | Print string
  | Centered message
  | Write string
  | Sleep real
  | Ask string
  | Listed csv_line

record world =
  clock :: "real stream"
  stdin :: "string list"
  ctrl_c :: "nat option"
  trace :: "event list"
  log_file :: "csv_line list option"

text \<open>
  A call returns a value, raises an exception, or is still running when the model stops
  following it (\<open>Starved\<close>: a \<^verbatim>\<open>while True\<close> loop that used up its fuel).
\<close>

datatype 'a outcome = Returns 'a | Raises exn | Starved

type_synonym 'a io = "world \<Rightarrow> 'a outcome \<times> world"

definition ret :: "'a \<Rightarrow> 'a io" where
  "ret a w = (Returns a, w)"

definition raise :: "exn \<Rightarrow> 'a io" where
  "raise e w = (Raises e, w)"

definition starved :: "'a io" where
  "starved w = (Starved, w)"

definition bind_io :: "'a io \<Rightarrow> ('a \<Rightarrow> 'b io) \<Rightarrow> 'b io" where
  "bind_io m f w =
     (case m w of
        (Returns a, w') \<Rightarrow> f a w'
      | (Raises e, w') \<Rightarrow> (Raises e, w')
      | (Starved, w') \<Rightarrow> (Starved, w'))"

definition seq :: "unit io \<Rightarrow> 'b io \<Rightarrow> 'b io" where
  "seq m k = bind_io m (\<lambda>_. k)"

text \<open>\<^verbatim>\<open>try: m except e: h\<close>, for the one exception class \<open>e\<close>.\<close>

definition try_except :: "'a io \<Rightarrow> exn \<Rightarrow> 'a io \<Rightarrow> 'a io" where
  "try_except m e h w =
     (case m w of
        (Raises e', w') \<Rightarrow> if e' = e then h w' else (Raises e', w')
      | (Returns a, w') \<Rightarrow> (Returns a, w')
      | (Starved, w') \<Rightarrow> (Starved, w'))"

definition say :: "event \<Rightarrow> unit io" where
  "say e w = (Returns (), w\<lparr>trace := trace w @ [e]\<rparr>)"

definition time_time :: "real io" where
  "time_time w = (Returns (shd (clock w)), w\<lparr>clock := stl (clock w)\<rparr>)"

text \<open>A blocking call is where a pending Ctrl-C is delivered.\<close>

definition interruptible :: "unit io" where
  "interruptible w =
     (case ctrl_c w of
        None \<Rightarrow> (Returns (), w)
      | Some 0 \<Rightarrow> (Raises KeyboardInterrupt, w\<lparr>ctrl_c := None\<rparr>)
      | Some (Suc k) \<Rightarrow> (Returns (), w\<lparr>ctrl_c := Some k\<rparr>))"

definition time_sleep :: "real \<Rightarrow> unit io" where
  "time_sleep d = seq (say (Sleep d)) interruptible"

definition read_line :: "string io" where
  "read_line w =
     (case stdin w of
        [] \<Rightarrow> (Raises EOFError, w)
      | l # ls \<Rightarrow> (Returns l, w\<lparr>stdin := ls\<rparr>))"

definition input :: "string \<Rightarrow> string io" where
  "input prompt = seq (say (Ask prompt)) (seq interruptible read_line)"

definition clear :: "unit io" where
  "clear = say Clear"

text \<open>
  \<^verbatim>\<open>bell()\<close> beeps or writes the terminal bell; its fallback on an \<^verbatim>\<open>Exception\<close>
  prints a separator. All of them are the one event \<open>Bell\<close>.
\<close>

definition bell :: "unit io" where
  "bell = say Bell"

definition print :: "string \<Rightarrow> unit io" where
  "print s = say (Print s)"

definition print_centered :: "message \<Rightarrow> unit io" where
  "print_centered s = say (Centered s)"

definition log_session :: "message \<Rightarrow> real \<Rightarrow> string \<Rightarrow> unit io" where
  "log_session knd duration nts =
     bind_io time_time (\<lambda>now w.
       let r = \<lparr>timestamp = now, kind = knd, duration_min = duration, notes' = nts\<rparr>;
           file_exists = (log_file w \<noteq> None);
           old = (case log_file w of None \<Rightarrow> [] | Some ls \<Rightarrow> ls);
           header = (if \<not> file_exists then [Header] else [])
       in (Returns (), w\<lparr>log_file := Some (old @ header @ [Row r])\<rparr>))"

section \<open>Numbers and their formatting\<close>

text \<open>\<^verbatim>\<open>int(x)\<close> of a float truncates toward zero.\<close>

definition py_int :: "real \<Rightarrow> int" where
  "py_int x = (if 0 \<le> x then \<lfloor>x\<rfloor> else \<lceil>x\<rceil>)"

text \<open>\<^verbatim>\<open>x // y\<close> and \<^verbatim>\<open>x % y\<close> on floats, for a divisor that is not zero.\<close>

definition floordiv :: "real \<Rightarrow> real \<Rightarrow> real" where
  "floordiv x y = of_int \<lfloor>x / y\<rfloor>"

definition pymod :: "real \<Rightarrow> real \<Rightarrow> real" where
  "pymod x y = x - y * of_int \<lfloor>x / y\<rfloor>"

function digits :: "nat \<Rightarrow> string" where
  "digits n = (if n < 10 then [''0123456789'' ! n] else digits (n div 10) @ [''0123456789'' ! (n mod 10)])"
  by pat_completeness auto
termination
  by (relation "measure id") auto

definition str_int :: "int \<Rightarrow> string" where
  "str_int n = (if n < 0 then CHR ''-'' # digits (nat (- n)) else digits (nat n))"

text \<open>The format specifications \<^verbatim>\<open>{n:02d}\<close> and \<^verbatim>\<open>{n:2d}\<close>.\<close>

definition fmt_02d :: "int \<Rightarrow> string" where
  "fmt_02d n =
     (if n < 0 then CHR ''-'' # digits (nat (- n))
      else let d = digits (nat n) in if length d < 2 then CHR ''0'' # d else d)"

definition fmt_2d :: "int \<Rightarrow> string" where
  "fmt_2d n = (let s = str_int n in if length s < 2 then CHR '' '' # s else s)"

text \<open>\<^verbatim>\<open>s * n\<close> on a string: empty when \<open>n \<le> 0\<close>.\<close>

definition str_mul :: "string \<Rightarrow> int \<Rightarrow> string" where
  "str_mul s n = concat (replicate (nat n) s)"

definition em_dash :: string where
  "em_dash = [CHR 0xE2, CHR 0x80, CHR 0x94]"

definition cr :: string where
  "cr = [CHR 0x0D]"

definition nl :: string where
  "nl = [CHR 0x0A]"

section \<open>The progress bar\<close>

text \<open>
  The body of the loop of \<^verbatim>\<open>progress_bar\<close> (lines 71 to 77), with its local variables
  as functions of \<open>total_seconds\<close> and \<open>elapsed\<close>. The division raises when
  \<open>total_seconds\<close> is zero. The numbers are those of exact arithmetic; \<open>filled_f64\<close>,
  \<open>mins_left_f64\<close> and \<open>secs_left_f64\<close> below are the same lines on doubles.
\<close>

definition bar_len :: int where
  "bar_len = 30"

definition percent :: "real \<Rightarrow> real \<Rightarrow> real" where
  "percent total_seconds elapsed = elapsed / total_seconds"

definition filled :: "real \<Rightarrow> real \<Rightarrow> int" where
  "filled total_seconds elapsed = py_int (percent total_seconds elapsed * of_int bar_len)"

definition bar :: "int \<Rightarrow> string" where
  "bar fill = ''['' @ str_mul ''#'' fill @ str_mul ''-'' (bar_len - fill) @ '']''"

definition mins_left :: "real \<Rightarrow> real \<Rightarrow> int" where
  "mins_left total_seconds elapsed = py_int (floordiv (total_seconds - elapsed) 60)"

definition secs_left :: "real \<Rightarrow> real \<Rightarrow> int" where
  "secs_left total_seconds elapsed = py_int (pymod (total_seconds - elapsed) 60)"

definition countdown :: "real \<Rightarrow> real \<Rightarrow> string" where
  "countdown total_seconds elapsed =
     fmt_02d (mins_left total_seconds elapsed) @ '':'' @ fmt_02d (secs_left total_seconds elapsed)"

definition progress_line :: "real \<Rightarrow> string \<Rightarrow> real \<Rightarrow> string io" where
  "progress_line total_seconds prefix elapsed =
     (if total_seconds = 0 then raise ZeroDivisionError
      else ret (cr @ prefix @ '' '' @ bar (filled total_seconds elapsed) @ '' ''
                @ countdown total_seconds elapsed @ '' remaining''))"

definition clear_line :: string where
  "clear_line = cr @ replicate 80 CHR '' '' @ cr"

text \<open>
  The \<^verbatim>\<open>while True\<close> loop of \<^verbatim>\<open>progress_bar\<close>. The first argument bounds the number
  of iterations the model follows.
\<close>

fun progress_loop :: "nat \<Rightarrow> real \<Rightarrow> string \<Rightarrow> real \<Rightarrow> unit io" where
  "progress_loop 0 total_seconds prefix start = starved"
| "progress_loop (Suc n) total_seconds prefix start =
     bind_io time_time (\<lambda>now.
       let elapsed = now - start in
       if elapsed \<ge> total_seconds then ret ()
       else bind_io (progress_line total_seconds prefix elapsed) (\<lambda>line.
              seq (say (Write line))
             (seq (time_sleep (1 / 2))
                  (progress_loop n total_seconds prefix start))))"

definition progress_bar :: "nat \<Rightarrow> real \<Rightarrow> string \<Rightarrow> unit io" where
  "progress_bar fuel total_seconds prefix =
     bind_io time_time (\<lambda>start.
       seq (progress_loop fuel total_seconds prefix start)
           (say (Write clear_line)))"

section \<open>Guided sessions\<close>

type_synonym cue = "int \<times> string"

definition GUIDED_5 :: "cue list" where
  "GUIDED_5 =
    [(0, ''Sit comfortably, spine straight, hands relaxed.''),
     (8, ''Close your eyes softly. Bring attention to the breath.''),
     (20, ''Follow your inhale... and your exhale. No need to control.''),
     (60, ''If the mind wanders, gently bring it back to the breath.''),
     (120, ''Feel the body'' @ em_dash @ ''weight on the seat, ground beneath you.''),
     (180, ''Notice sounds outside without judging them.''),
     (240, ''Feel gratitude for this time. When ready, deepen the breath.'')]"

definition GUIDED_10 :: "cue list" where
  "GUIDED_10 =
    [(0, ''Make yourself comfortable. Relax your shoulders.''),
     (10, ''Close your eyes. Take three slow breaths, in and out.''),
     (30, ''Allow your breath to find its own natural rhythm.''),
     (90, ''Scan the body from head to toe'' @ em_dash @ ''release any tension.''),
     (180, ''Focus on the rise and fall of the chest or belly.''),
     (300, ''If thoughts appear, label them 'thinking' and let them pass.''),
     (420, ''Extend your out-breath by one second '' @ em_dash @ '' just softly.''),
     (540, ''Bring kindness to yourself. Hold this moment of calm.''),
     (570, ''When ready, wiggle your fingers and toes and open eyes slowly.'')]"

definition GUIDED_15 :: "cue list" where
  "GUIDED_15 =
    [(0, ''Begin seated or lying down. Let the body soften.''),
     (12, ''Take a deep inhalation and a slow exhalation.''),
     (40, ''Scan your body and breathe into any tight spots.''),
     (120, ''Now focus on breath sensations '' @ em_dash @ '' cool at the nostrils, warm at the exhale.''),
     (300, ''If a thought grabs you, observe it, then return to the breath.''),
     (480, ''Stay with a gentle attention; do not push or force.''),
     (660, ''Offer a short gratitude for something simple (a breath, a sound).''),
     (840, ''Slowly deepen your breath and return awareness to the room.''),
     (880, ''When ready, open your eyes and take this calm into your next minutes.'')]"

text \<open>
  The inner loop of \<^verbatim>\<open>guided_session\<close> (lines 131 to 134): it prints the script
  lines whose time has come, from the cursor \<open>i\<close> on, and returns the new cursor.
\<close>

function play_due :: "cue list \<Rightarrow> real \<Rightarrow> nat \<Rightarrow> nat io" where
  "play_due script elapsed i =
     (if i < length script \<and> elapsed \<ge> of_int (fst (script ! i))
      then seq (print [])
          (seq (print_centered (Plain (snd (script ! i))))
               (play_due script elapsed (i + 1)))
      else ret i)"
  by pat_completeness auto
termination
  by (relation "measure (\<lambda>(script, elapsed, i). length script - i)") auto

text \<open>
  One pass through the body of the outer loop (lines 127 to 136): \<open>None\<close> is the
  \<^verbatim>\<open>break\<close>, \<open>Some i\<close> the cursor the next pass starts with.
\<close>

definition guided_tick :: "nat \<Rightarrow> cue list \<Rightarrow> real \<Rightarrow> real \<Rightarrow> nat \<Rightarrow> nat option io" where
  "guided_tick fuel script total_seconds start_time i =
     bind_io time_time (\<lambda>now.
       let elapsed = now - start_time in
       if elapsed \<ge> total_seconds then ret None
       else bind_io (play_due script elapsed i) (\<lambda>i'.
              let remaining = max 0 (total_seconds - elapsed) in
              seq (progress_bar fuel remaining ''Guided:'') (ret (Some i'))))"

fun guided_loop :: "nat \<Rightarrow> cue list \<Rightarrow> real \<Rightarrow> real \<Rightarrow> nat \<Rightarrow> unit io" where
  "guided_loop 0 script total_seconds start_time i = starved"
| "guided_loop (Suc n) script total_seconds start_time i =
     bind_io (guided_tick n script total_seconds start_time i) (\<lambda>r.
       case r of
         None \<Rightarrow> ret ()
       | Some i' \<Rightarrow> guided_loop n script total_seconds start_time i')"

definition press_enter :: "unit io" where
  "press_enter = bind_io (input ''Press Enter to return to menu...'') (\<lambda>_. ret ())"

definition guided_session :: "nat \<Rightarrow> cue list \<Rightarrow> real \<Rightarrow> unit io" where
  "guided_session fuel script duration =
     seq clear
    (let total_seconds = duration * 60 in
     bind_io time_time (\<lambda>start_time.
     seq bell
    (seq (guided_loop fuel script total_seconds start_time 0)
    (seq bell
    (seq (print_centered (Plain (''Session complete '' @ em_dash @ '' gently come back when ready.'')))
    (seq (log_session (Interp ''Guided '' duration '' min'') duration [])
         press_enter))))))"

section \<open>The silent timer, box breathing and the body scan\<close>

definition custom_timer :: "nat \<Rightarrow> real \<Rightarrow> unit io" where
  "custom_timer fuel duration =
     seq clear
    (seq (print_centered (Interp (''Custom silent timer '' @ em_dash @ '' '') duration '' minutes''))
    (seq bell
    (seq (progress_bar fuel (duration * 60) ''Timer:'')
    (seq bell
    (seq (print_centered (Plain ''Time's up. Well done.''))
    (seq (log_session (Plain ''Custom timer'') duration [])
         press_enter))))))"

text \<open>\<^verbatim>\<open>for t in range(n, 0, -1)\<close>: one line and one second per count.\<close>

fun count_down :: "string \<Rightarrow> nat \<Rightarrow> unit io" where
  "count_down label 0 = ret ()"
| "count_down label (Suc t) =
     seq (say (Write (cr @ label @ '': '' @ fmt_2d (int (Suc t)) @ '' '')))
    (seq (time_sleep 1)
         (count_down label t))"

text \<open>
  \<^verbatim>\<open>for c in range(1, cycles + 1)\<close>, from the cycle \<open>c\<close> on, with \<open>k\<close> cycles to go.
\<close>

fun box_cycles :: "int \<Rightarrow> int \<Rightarrow> int \<Rightarrow> int \<Rightarrow> int \<Rightarrow> nat \<Rightarrow> unit io" where
  "box_cycles cycles inhale hold exhale c 0 = ret ()"
| "box_cycles cycles inhale hold exhale c (Suc k) =
     seq (print (nl @ ''Cycle '' @ str_int c @ ''/'' @ str_int cycles))
    (seq (count_down ''Inhale  '' (nat inhale))
    (seq (count_down ''Hold    '' (nat hold))
    (seq (count_down ''Exhale  '' (nat exhale))
    (seq (count_down ''Hold    '' (nat hold))
    (seq (print [])
         (box_cycles cycles inhale hold exhale (c + 1) k))))))"

definition box_breathing :: "int \<Rightarrow> int \<Rightarrow> int \<Rightarrow> int \<Rightarrow> unit io" where
  "box_breathing cycles inhale hold exhale =
     seq clear
    (seq (print_centered (Plain ''Box Breathing Exercise''))
    (seq (print [])
    (seq (print (''Cycles: '' @ str_int cycles @ '', Pattern: Inhale '' @ str_int inhale
                 @ ''s '' @ em_dash @ '' Hold '' @ str_int hold
                 @ ''s '' @ em_dash @ '' Exhale '' @ str_int exhale
                 @ ''s '' @ em_dash @ '' Hold '' @ str_int hold @ ''s''))
    (seq bell
    (seq (time_sleep (12 / 10))
    (seq (box_cycles cycles inhale hold exhale 1 (nat cycles))
    (seq bell
    (seq (print (nl @ ''Box breathing complete. Notice how you feel.''))
    (seq (log_session (Plain ''Box breathing'')
            (of_int (cycles * (inhale + hold + exhale + hold)) / 60) [])
         press_enter)))))))))"

definition parts :: "string list" where
  "parts =
    [''top of the head '' @ em_dash @ '' notice sensations there'',
     ''forehead and eyes '' @ em_dash @ '' soften the muscles'',
     ''jaw and mouth '' @ em_dash @ '' let the jaw relax'',
     ''neck and shoulders '' @ em_dash @ '' release weight into the chair'',
     ''arms, hands, and fingers '' @ em_dash @ '' soft and heavy'',
     ''chest and belly '' @ em_dash @ '' breathe into the chest'',
     ''lower back and hips '' @ em_dash @ '' let them sink'',
     ''thighs and knees '' @ em_dash @ '' feel support'',
     ''calves and shins '' @ em_dash @ '' let go'',
     ''feet and toes '' @ em_dash @ '' notice contact with the floor'']"

text \<open>\<^verbatim>\<open>for idx, part in enumerate(parts, start=1)\<close>, from the index \<open>idx\<close> on.\<close>

fun scan_parts :: "nat \<Rightarrow> real \<Rightarrow> int \<Rightarrow> string list \<Rightarrow> unit io" where
  "scan_parts fuel per_part idx [] = ret ()"
| "scan_parts fuel per_part idx (part # rest) =
     seq (print [])
    (seq (print_centered (Plain (''Focus: '' @ part)))
    (seq (progress_bar fuel per_part
            (''Part '' @ str_int idx @ ''/'' @ str_int (int (length parts)) @ '':''))
         (scan_parts fuel per_part (idx + 1) rest)))"

definition body_scan :: "nat \<Rightarrow> int \<Rightarrow> unit io" where
  "body_scan fuel duration =
     seq clear
    (let total_seconds = duration * 60;
         per_part = of_int total_seconds / of_nat (length parts) in
     seq bell
    (seq (print_centered (Plain (''Body-scan '' @ em_dash @ '' '' @ str_int duration @ '' minutes'')))
    (seq (time_sleep (12 / 10))
    (seq (scan_parts fuel per_part 1 parts)
    (seq bell
    (seq (print_centered (Plain ''Body scan complete. Slowly reconnect with the room.''))
    (seq (log_session (Plain (''Body-scan '' @ str_int duration @ '' min'')) (of_int duration) [])
         press_enter)))))))"

section \<open>The log viewer, the menu and the top level\<close>

definition read_log :: "csv_line list option io" where
  "read_log w = (Returns (log_file w), w)"

fun list_rows :: "csv_line list \<Rightarrow> unit io" where
  "list_rows [] = ret ()"
| "list_rows (r # rs) = seq (say (Listed r)) (list_rows rs)"

text \<open>
  \<^verbatim>\<open>csv.DictReader\<close> takes the first line of the file as the field names, so the
  rows are the lines after it; a row is looked up by the names of the header, which
  fails when the first line is not the header.
\<close>

definition show_log :: "unit io" where
  "show_log =
     seq clear
    (bind_io read_log (\<lambda>f.
       case f of
         None \<Rightarrow>
           seq (print ''No log found yet. Your sessions will be saved to meditation_log.csv'')
               press_enter
       | Some ls \<Rightarrow>
           seq (print_centered (Plain ''Meditation Log''))
          (seq (print (str_mul ''-'' 60))
          (seq (let rows = tl ls in
                if rows = [] then print ''No sessions logged yet.''
                else if hd ls \<noteq> Header then raise KeyError
                else list_rows (drop (length rows - 20) rows))
          (seq (print (str_mul ''-'' 60))
               press_enter)))))"

text \<open>
  \<^verbatim>\<open>str.strip()\<close> on the ASCII white space (Python also strips the white space
  beyond ASCII).
\<close>

definition is_space :: "char \<Rightarrow> bool" where
  "is_space c = (c \<in> set [CHR '' '', CHR 0x09, CHR 0x0A, CHR 0x0B, CHR 0x0C, CHR 0x0D,
                            CHR 0x1C, CHR 0x1D, CHR 0x1E, CHR 0x1F])"

definition strip :: "string \<Rightarrow> string" where
  "strip s = rev (dropWhile is_space (rev (dropWhile is_space s)))"

text \<open>
  Python's \<^verbatim>\<open>int()\<close> and \<^verbatim>\<open>float()\<close> on a string are parameters of the menu:
  functions that return \<open>None\<close> where the built-in raises \<^verbatim>\<open>ValueError\<close>. (A float
  that is infinite or not a number is outside the model.)
\<close>

definition convert :: "(string \<Rightarrow> 'a option) \<Rightarrow> string \<Rightarrow> 'a io" where
  "convert parse s = (case parse s of None \<Rightarrow> raise ValueError | Some v \<Rightarrow> ret v)"

text \<open>\<^verbatim>\<open>input(prompt) or default\<close>: the default stands in for the empty line.\<close>

definition input_or :: "string \<Rightarrow> string \<Rightarrow> string io" where
  "input_or prompt dflt = bind_io (input prompt) (\<lambda>s. ret (if s = [] then dflt else s))"

fun print_lines :: "string list \<Rightarrow> unit io" where
  "print_lines [] = ret ()"
| "print_lines (l # ls) = seq (print l) (print_lines ls)"

definition menu_screen :: "unit io" where
  "menu_screen =
     seq clear
    (seq (print (str_mul ''='' 60))
    (seq (print_centered (Plain (''Calm CLI '' @ em_dash @ '' Simple Meditation App'')))
         (print_lines
            [str_mul ''='' 60,
             ''Choose an option:'',
             '' 1) Guided '' @ em_dash @ '' 5 minutes'',
             '' 2) Guided '' @ em_dash @ '' 10 minutes'',
             '' 3) Guided '' @ em_dash @ '' 15 minutes'',
             '' 4) Custom silent timer'',
             '' 5) Box breathing exercise'',
             '' 6) Body-scan meditation (10 min default)'',
             '' 7) View session log'',
             '' 0) Exit'',
             []])))"

text \<open>
  One pass through the loop of \<^verbatim>\<open>main_menu\<close>: \<open>False\<close> is the \<^verbatim>\<open>break\<close> of the
  choice 0.
\<close>

definition menu_step ::
  "(string \<Rightarrow> int option) \<Rightarrow> (string \<Rightarrow> real option) \<Rightarrow> nat \<Rightarrow> bool io" where
  "menu_step pyint pyfloat fuel =
     seq menu_screen
    (bind_io (input ''Enter choice: '') (\<lambda>answer.
       let choice = strip answer in
       if choice = ''1'' then seq (guided_session fuel GUIDED_5 5) (ret True)
       else if choice = ''2'' then seq (guided_session fuel GUIDED_10 10) (ret True)
       else if choice = ''3'' then seq (guided_session fuel GUIDED_15 15) (ret True)
       else if choice = ''4'' then
         seq (try_except
                (bind_io (input ''Enter duration in minutes (e.g., 7.5): '') (\<lambda>s.
                 bind_io (convert pyfloat (strip s)) (\<lambda>mins.
                   if mins \<le> 0 then raise ValueError
                   else custom_timer fuel mins)))
                ValueError
                (seq (print ''Invalid duration. Press Enter to continue...'')
                     (bind_io (input []) (\<lambda>_. ret ()))))
             (ret True)
       else if choice = ''5'' then
         seq (try_except
                (bind_io (input_or ''Number of cycles (default 4): '' ''4'') (\<lambda>s1.
                 bind_io (convert pyint s1) (\<lambda>cycles.
                 bind_io (input_or ''Inhale seconds (default 4): '' ''4'') (\<lambda>s2.
                 bind_io (convert pyint s2) (\<lambda>inhale.
                 bind_io (input_or ''Hold seconds (default 4): '' ''4'') (\<lambda>s3.
                 bind_io (convert pyint s3) (\<lambda>hold.
                 bind_io (input_or ''Exhale seconds (default 4): '' ''4'') (\<lambda>s4.
                 bind_io (convert pyint s4) (\<lambda>exhale.
                   box_breathing cycles inhale hold exhale)))))))))
                ValueError
                (seq (print ''Invalid numbers. Returning to menu...'')
                     (time_sleep (12 / 10))))
             (ret True)
       else if choice = ''6'' then
         seq (try_except
                (bind_io (input_or ''Duration minutes (default 10): '' ''10'') (\<lambda>s.
                 bind_io (convert pyfloat s) (\<lambda>mins.
                   body_scan fuel (py_int mins))))
                ValueError
                (seq (print ''Invalid input. Returning to menu...'')
                     (time_sleep (12 / 10))))
             (ret True)
       else if choice = ''7'' then seq show_log (ret True)
       else if choice = ''0'' then
         seq clear
        (seq (print_centered
                (Plain (''May you have a calm and peaceful day '' @ em_dash @ '' goodbye.'')))
             (ret False))
       else
         seq (print ''Unknown choice. Try again.'')
        (seq (time_sleep 1)
             (ret True))))"

fun main_menu ::
  "(string \<Rightarrow> int option) \<Rightarrow> (string \<Rightarrow> real option) \<Rightarrow> nat \<Rightarrow> unit io" where
  "main_menu pyint pyfloat 0 = starved"
| "main_menu pyint pyfloat (Suc n) =
     bind_io (menu_step pyint pyfloat n) (\<lambda>again.
       if again then main_menu pyint pyfloat n else ret ())"

text \<open>The block under \<^verbatim>\<open>if __name__ == "__main__"\<close>.\<close>

definition main :: "(string \<Rightarrow> int option) \<Rightarrow> (string \<Rightarrow> real option) \<Rightarrow> nat \<Rightarrow> unit io" where
  "main pyint pyfloat fuel =
     try_except (main_menu pyint pyfloat fuel) KeyboardInterrupt
       (print (nl @ nl @ ''Session interrupted. Take care.''))"

section \<open>Reading a run\<close>

text \<open>
  The cues that are due at \<open>elapsed\<close> from the cursor \<open>i\<close> on, the events their
  printing leaves in the trace, and the texts of the centred lines of a trace.
\<close>

definition due :: "cue list \<Rightarrow> real \<Rightarrow> nat \<Rightarrow> cue list" where
  "due script elapsed i = takeWhile (\<lambda>c. of_int (fst c) \<le> elapsed) (drop i script)"

definition cue_events :: "cue list \<Rightarrow> event list" where
  "cue_events cs = concat (map (\<lambda>c. [Print [], Centered (Plain (snd c))]) cs)"

fun cue_texts :: "event list \<Rightarrow> string list" where
  "cue_texts [] = []"
| "cue_texts (Centered (Plain s) # es) = s # cue_texts es"
| "cue_texts (e # es) = cue_texts es"

text \<open>A world in which nothing has happened yet and the clock stands still.\<close>

definition quiet :: world where
  "quiet = \<lparr>clock = sconst 0, stdin = [], ctrl_c = None, trace = [], log_file = None\<rparr>"

text \<open>
  The seconds a trace spends in \<^verbatim>\<open>time.sleep\<close>; \<open>prints m w evs\<close>: run in \<open>w\<close>,
  \<open>m\<close> returns and has only added the events \<open>evs\<close> to the terminal;
  \<open>sleeps m a\<close>: whenever no Ctrl-C is pending, \<open>m\<close> is such a run that sleeps
  \<open>a\<close> seconds.
\<close>

fun slept :: "event list \<Rightarrow> real" where
  "slept [] = 0"
| "slept (Sleep d # es) = d + slept es"
| "slept (e # es) = slept es"

definition prints :: "unit io \<Rightarrow> world \<Rightarrow> event list \<Rightarrow> bool" where
  "prints m w evs \<longleftrightarrow> m w = (Returns (), w\<lparr>trace := trace w @ evs\<rparr>)"

definition sleeps :: "unit io \<Rightarrow> real \<Rightarrow> bool" where
  "sleeps m a \<longleftrightarrow> (\<forall>w. ctrl_c w = None \<longrightarrow> (\<exists>evs. prints m w evs \<and> slept evs = a))"

text \<open>
  A sequence of queries: the inner loop of \<^verbatim>\<open>guided_session\<close> run once for each
  elapsed time of a list, every run starting from the cursor the one before returned.
  The result is the list of the cursors returned. \<open>cursors\<close> computes them without the
  terminal; \<open>cnt script e\<close> is the length of the longest prefix of the script whose
  offsets are all at most \<open>e\<close>; \<open>scenario\<close> is the cue script of the scenario of the
  specification.
\<close>

fun ticks :: "cue list \<Rightarrow> real list \<Rightarrow> nat \<Rightarrow> nat list io" where
  "ticks script [] i = ret []"
| "ticks script (e # es) i =
     bind_io (play_due script e i) (\<lambda>i'.
     bind_io (ticks script es i') (\<lambda>cursors.
       ret (i' # cursors)))"

fun cursors :: "cue list \<Rightarrow> real list \<Rightarrow> nat \<Rightarrow> nat list" where
  "cursors script [] i = []"
| "cursors script (e # es) i =
     (i + length (due script e i)) # cursors script es (i + length (due script e i))"

definition scenario :: "cue list" where
  "scenario = [(0, ''A''), (5, ''B''), (5, ''C''), (10, ''D'')]"

definition cnt :: "cue list \<Rightarrow> real \<Rightarrow> nat" where
  "cnt script e = length (takeWhile (\<lambda>c. of_int (fst c) \<le> e) script)"

text \<open>
  \<open>keeps R m\<close>: whatever the outcome, \<open>m\<close> leaves a world that is related by \<open>R\<close> to
  the one it started in. \<open>no_cue\<close> relates a world to a later one whose terminal has
  gained no centred line. \<open>at_start\<close> is a world at the entry of the loop of a guided
  session. \<open>at_tick script total_seconds start_time w0 i w\<close>: the loop of the guided
  session, entered in the world \<open>w0\<close> with the cursor 0, can be at the head of a pass
  with the cursor \<open>i\<close> in the world \<open>w\<close>. \<open>shown_cues\<close> is the invariant of that loop.
\<close>

definition keeps :: "(world \<Rightarrow> world \<Rightarrow> bool) \<Rightarrow> 'a io \<Rightarrow> bool" where
  "keeps R m \<longleftrightarrow> (\<forall>w. R w (snd (m w)))"

definition no_cue :: "world \<Rightarrow> world \<Rightarrow> bool" where
  "no_cue w w' \<longleftrightarrow> (\<exists>evs. trace w' = trace w @ evs \<and> cue_texts evs = [])"

definition at_start :: world where
  "at_start = \<lparr>clock = 100 ## 100 ## 100 ## 106 ## 112 ## sconst 112, stdin = [[]],
                ctrl_c = None, trace = [Clear, Bell], log_file = None\<rparr>"

inductive at_tick :: "cue list \<Rightarrow> real \<Rightarrow> real \<Rightarrow> world \<Rightarrow> nat \<Rightarrow> world \<Rightarrow> bool"
  for script total_seconds start_time w0
  where
    entry: "at_tick script total_seconds start_time w0 0 w0"
  | pass: "at_tick script total_seconds start_time w0 i w \<Longrightarrow>
           guided_tick n script total_seconds start_time i w = (Returns (Some i'), w') \<Longrightarrow>
           at_tick script total_seconds start_time w0 i' w'"

definition shown_cues :: "cue list \<Rightarrow> world \<Rightarrow> nat \<Rightarrow> world \<Rightarrow> bool" where
  "shown_cues script w0 i w \<longleftrightarrow>
     i \<le> length script
     \<and> (\<exists>evs. trace w = trace w0 @ evs \<and> cue_texts evs = map snd (take i script))"

text \<open>
  \<open>same_log\<close> relates two worlds with the same log file. \<open>abort_safe m\<close>: a run of
  \<open>m\<close> that has changed the log file has not raised \<^verbatim>\<open>ValueError\<close>, and if it was
  interrupted, that was at a prompt (the last event of its trace is an \<open>Ask\<close>).

  \<open>plain_int\<close> and \<open>plain_float\<close> read a plain decimal integer literal with an optional
  minus sign; on these strings Python's \<^verbatim>\<open>int()\<close> and \<^verbatim>\<open>float()\<close> return the same
  number. The concrete runs below pass them to the menu. \<open>interrupted\<close> is a world in
  which the user chooses box breathing, accepts the four defaults and presses Ctrl-C
  during the third count.
\<close>

definition same_log :: "world \<Rightarrow> world \<Rightarrow> bool" where
  "same_log w w' \<longleftrightarrow> log_file w' = log_file w"

definition abort_safe :: "'a io \<Rightarrow> bool" where
  "abort_safe m \<longleftrightarrow>
     (\<forall>w r w'. m w = (r, w') \<longrightarrow>
        log_file w' = log_file w
        \<or> (r \<noteq> Raises ValueError
           \<and> (r = Raises KeyboardInterrupt \<longrightarrow> (\<exists>evs p. trace w' = evs @ [Ask p]))))"

definition digit_of :: "char \<Rightarrow> nat option" where
  "digit_of c =
     map_of [(CHR ''0'', 0), (CHR ''1'', 1), (CHR ''2'', 2), (CHR ''3'', 3), (CHR ''4'', 4),
             (CHR ''5'', 5), (CHR ''6'', 6), (CHR ''7'', 7), (CHR ''8'', 8), (CHR ''9'', 9)] c"

fun nat_of :: "string \<Rightarrow> nat \<Rightarrow> nat option" where
  "nat_of [] acc = Some acc"
| "nat_of (c # cs) acc =
     (case digit_of c of None \<Rightarrow> None | Some d \<Rightarrow> nat_of cs (10 * acc + d))"

definition plain_int :: "string \<Rightarrow> int option" where
  "plain_int s =
     (case s of
        [] \<Rightarrow> None
      | c # cs \<Rightarrow>
          if c = CHR ''-'' then (if cs = [] then None else map_option (\<lambda>n. - int n) (nat_of cs 0))
          else map_option int (nat_of s 0))"

definition plain_float :: "string \<Rightarrow> real option" where
  "plain_float s = map_option of_int (plain_int s)"

definition interrupted :: world where
  "interrupted = quiet\<lparr>stdin := [''5'', [], [], [], []], ctrl_c := Some 8\<rparr>"

text \<open>
  \<open>launch\<close> is a world in which a guided session of 10 seconds sees the elapsed times
  0, 6 and 12: the clock reads 100 when the session starts, at its first tick and when
  the progress bar starts and first looks, then 106, then 112. In \<open>zero_cycles\<close> the user
  chooses box breathing and asks for 0 cycles; in \<open>zero_minutes\<close> the user chooses the
  body scan and asks for 0 minutes.
\<close>

definition launch :: world where
  "launch = \<lparr>clock = 100 ## 100 ## 100 ## 100 ## 106 ## 112 ## sconst 112, stdin = [[]],
              ctrl_c = None, trace = [], log_file = None\<rparr>"

definition complete_message :: string where
  "complete_message = ''Session complete '' @ em_dash @ '' gently come back when ready.''"

definition zero_cycles :: world where
  "zero_cycles = quiet\<lparr>stdin := [''5'', ''0'', [], [], [], []]\<rparr>"

definition zero_minutes :: world where
  "zero_minutes = quiet\<lparr>stdin := [''6'', ''0'', []]\<rparr>"

text \<open>
  A clock that never runs backwards, and a clock all of whose reads are at or after a
  given time.
\<close>

definition steady :: "real stream \<Rightarrow> bool" where
  "steady c \<longleftrightarrow> (\<forall>n. snth c n \<le> snth c (Suc n))"

definition not_before :: "real \<Rightarrow> real stream \<Rightarrow> bool" where
  "not_before t c \<longleftrightarrow> (\<forall>n. t \<le> snth c n)"

section \<open>Double precision\<close>

text \<open>
  Python's floats are IEEE 754 doubles. The definitions above compute the numbers of a
  progress line in exact arithmetic; the definitions of this section compute them as the
  interpreter does, so that the theorems on the progress line can say how far the two are
  apart.

  \<open>rnd53 x\<close> is \<open>x\<close> rounded to the nearest number whose significand has 53 bits, a tie
  going to the even significand. Its exponent is not bounded, so overflow and underflow are
  not modelled: a quotient \<open>elapsed / total_seconds\<close> of at most 1 does not overflow,
  one that underflows fills no slot either way, and a difference of two doubles that is
  subnormal is exact. The doubles are the fixed points of \<open>rnd53\<close>; division,
  multiplication and subtraction of doubles return the exact result rounded.
\<close>

definition round_even :: "real \<Rightarrow> int" where
  "round_even y =
     (let f = \<lfloor>y\<rfloor>; d = y - of_int f
      in if d < 1 / 2 then f
         else if 1 / 2 < d then f + 1
         else if even f then f else f + 1)"







section \<open>The cue cursor\<close>

lemmas io_defs = seq_def bind_io_def ret_def raise_def starved_def say_def time_time_def
  interruptible_def time_sleep_def read_line_def input_def clear_def bell_def print_def
  print_centered_def log_session_def try_except_def press_enter_def

declare play_due.simps [simp del]
declare digits.simps [simp del]

lemma cue_texts_append: "cue_texts (xs @ ys) = cue_texts xs @ cue_texts ys"
  by (induction xs rule: cue_texts.induct) simp_all

lemma cue_texts_cue_events: "cue_texts (cue_events cs) = map snd cs"
  by (induction cs) (simp_all add: cue_events_def)

lemma cue_events_append: "cue_events (xs @ ys) = cue_events xs @ cue_events ys"
  by (simp add: cue_events_def)

lemma play_due_eq:
  "play_due script elapsed i w =
     (Returns (i + length (due script elapsed i)),
      w\<lparr>trace := trace w @ cue_events (due script elapsed i)\<rparr>)"
proof (induction script elapsed i arbitrary: w rule: play_due.induct)
  case (1 script elapsed i)
  show ?case
  proof (cases "i < length script \<and> elapsed \<ge> of_int (fst (script ! i))")
    case True
    then have d: "drop i script = script ! i # drop (Suc i) script"
      by (simp add: Cons_nth_drop_Suc)
    have "due script elapsed i = script ! i # due script elapsed (i + 1)"
      using True by (simp add: due_def d)
    then show ?thesis
      using True 1 [OF True]
      by (subst play_due.simps) (simp add: io_defs cue_events_def)
  next
    case False
    then have "due script elapsed i = []"
      by (cases "i < length script") (simp_all add: due_def Cons_nth_drop_Suc [symmetric])
    then show ?thesis
      using False by (subst play_due.simps) (auto simp: io_defs cue_events_def)
  qed
qed

lemma takeWhile_dropWhile_same: "takeWhile P (dropWhile P xs) = []"
  by (induction xs) auto

lemma due_again: "due script elapsed (i + length (due script elapsed i)) = []"
proof -
  let ?P = "\<lambda>c::cue. of_int (fst c) \<le> elapsed"
  have "drop (i + length (takeWhile ?P (drop i script))) script
          = dropWhile ?P (drop i script)"
    by (simp add: dropWhile_eq_drop add.commute)
  then show ?thesis
    by (simp add: due_def takeWhile_dropWhile_same)
qed

text \<open>
  Claim C4. The inner loop of \<^verbatim>\<open>guided_session\<close> always returns, and running it
  again at the same elapsed time, from the cursor and the terminal that the first run
  left, prints nothing and leaves the cursor where it is: no cue fires twice.
\<close>

theorem play_due_twice:
  "\<exists>i' w'. play_due script elapsed i w = (Returns i', w')
      \<and> play_due script elapsed i' w' = (Returns i', w')"
  by (simp add: play_due_eq due_again cue_events_def)

section \<open>The progress bar and its countdown\<close>

lemma progress_loop_done:
  "total_seconds \<le> shd (clock w) - start \<Longrightarrow>
   progress_loop (Suc n) total_seconds prefix start w = (Returns (), w\<lparr>clock := stl (clock w)\<rparr>)"
  by (simp add: io_defs)

text \<open>
  Claim C9. When \<open>total_seconds \<le> 0\<close> and the clock does not run backwards between
  the two reads, \<^verbatim>\<open>progress_bar\<close> leaves its loop in the first iteration: it returns
  (it does not raise \<^verbatim>\<open>ZeroDivisionError\<close>, also when \<open>total_seconds\<close> is zero), it
  has read the clock twice, and all it wrote is the line that clears the bar.
\<close>

theorem progress_bar_nonpositive:
  assumes "total_seconds \<le> 0" and "shd (clock w) \<le> shd (stl (clock w))"
  shows "progress_bar (Suc n) total_seconds prefix w =
           (Returns (), w\<lparr>clock := stl (stl (clock w)), trace := trace w @ [Write clear_line]\<rparr>)"
  using assms by (simp add: progress_bar_def io_defs)

theorem progress_bar_nonpositive_witness:
  "progress_bar (Suc 0) 0 ''Timer:'' quiet = (Returns (), quiet\<lparr>trace := [Write clear_line]\<rparr>)"
  using progress_bar_nonpositive [of 0 quiet 0 "''Timer:''"] by (simp add: quiet_def)

lemma filled_floor:
  assumes "0 < total_seconds" "0 \<le> e"
  shows "filled total_seconds e = \<lfloor>30 * e / total_seconds\<rfloor>"
proof -
  have "0 \<le> e / total_seconds * 30" using assms by simp
  then show ?thesis
    by (simp add: filled_def percent_def py_int_def bar_len_def mult.commute)
qed








section \<open>Box breathing\<close>

lemma slept_append: "slept (xs @ ys) = slept xs + slept ys"
  by (induction xs rule: slept.induct) simp_all

lemma prints_seq:
  assumes "prints m w xs" and "prints k (w\<lparr>trace := trace w @ xs\<rparr>) ys"
  shows "prints (seq m k) w (xs @ ys)"
  using assms by (simp add: prints_def seq_def bind_io_def)

lemma prints_say: "prints (say e) w [e]"
  by (simp add: prints_def say_def)

lemma prints_sleep: "ctrl_c w = None \<Longrightarrow> prints (time_sleep d) w [Sleep d]"
  by (simp add: prints_def io_defs)

lemma prints_ret: "prints (ret ()) w []"
  by (simp add: prints_def ret_def)

lemma seq_assoc: "seq (seq a b) c = seq a (seq b c)"
  by (rule ext) (simp add: seq_def bind_io_def split: prod.splits outcome.splits)

lemma sleeps_seq:
  assumes "sleeps m a" and "sleeps k b"
  shows "sleeps (seq m k) (a + b)"
  unfolding sleeps_def
proof (intro allI impI)
  fix w :: world
  assume w: "ctrl_c w = None"
  then obtain xs where xs: "prints m w xs" "slept xs = a"
    using assms(1) by (auto simp: sleeps_def)
  have "ctrl_c (w\<lparr>trace := trace w @ xs\<rparr>) = None"
    using w by simp
  then obtain ys where ys: "prints k (w\<lparr>trace := trace w @ xs\<rparr>) ys" "slept ys = b"
    using assms(2) unfolding sleeps_def by blast
  have "prints (seq m k) w (xs @ ys)"
    using xs(1) ys(1) by (rule prints_seq)
  then show "\<exists>evs. prints (seq m k) w evs \<and> slept evs = a + b"
    using xs(2) ys(2) by (auto simp: slept_append)
qed

lemma sleeps_ret: "sleeps (ret ()) 0"
  using prints_ret by (fastforce simp: sleeps_def)

lemma sleeps_time_sleep: "sleeps (time_sleep d) d"
  unfolding sleeps_def using prints_sleep by (auto intro!: exI [of _ "[Sleep d]"])

lemma sleeps_print: "sleeps (print s) 0"
  using prints_say [of "Print s"] by (fastforce simp: sleeps_def print_def)

lemma sleeps_print_centered: "sleeps (print_centered s) 0"
  using prints_say [of "Centered s"] by (fastforce simp: sleeps_def print_centered_def)

lemma sleeps_write: "sleeps (say (Write s)) 0"
  using prints_say [of "Write s"] by (fastforce simp: sleeps_def)

lemma sleeps_bell: "sleeps bell 0"
  using prints_say [of Bell] by (fastforce simp: sleeps_def bell_def)

lemma sleeps_clear: "sleeps clear 0"
  using prints_say [of Clear] by (fastforce simp: sleeps_def clear_def)

lemma sleeps_count_down: "sleeps (count_down label n) (real n)"
proof (induction n)
  case 0
  show ?case
    by (simp add: sleeps_ret)
next
  case (Suc n)
  have "sleeps (count_down label (Suc n)) (0 + (1 + real n))"
    unfolding count_down.simps
    by (intro sleeps_seq sleeps_write sleeps_time_sleep Suc)
  then show ?case
    by (simp add: add.commute)
qed

lemma sleeps_box_cycles:
  "sleeps (box_cycles cycles inhale hold exhale c k)
     (real k * (real (nat inhale) + 2 * real (nat hold) + real (nat exhale)))"
proof (induction k arbitrary: c)
  case 0
  show ?case
    by (simp add: sleeps_ret)
next
  case (Suc k)
  let ?one = "real (nat inhale) + 2 * real (nat hold) + real (nat exhale)"
  have "sleeps (box_cycles cycles inhale hold exhale c (Suc k))
          (0 + (real (nat inhale) + (real (nat hold) + (real (nat exhale) + (real (nat hold)
             + (0 + real k * ?one))))))"
    unfolding box_cycles.simps
    by (intro sleeps_seq sleeps_print sleeps_count_down Suc)
  then show ?case
    by (simp add: algebra_simps)
qed

lemma box_breathing_split:
  "box_breathing cycles inhale hold exhale =
     seq (seq clear
         (seq (print_centered (Plain ''Box Breathing Exercise''))
         (seq (print [])
         (seq (print (''Cycles: '' @ str_int cycles @ '', Pattern: Inhale '' @ str_int inhale
                 @ ''s '' @ em_dash @ '' Hold '' @ str_int hold
                 @ ''s '' @ em_dash @ '' Exhale '' @ str_int exhale
                 @ ''s '' @ em_dash @ '' Hold '' @ str_int hold @ ''s''))
         (seq bell
         (seq (time_sleep (12 / 10))
         (seq (box_cycles cycles inhale hold exhale 1 (nat cycles))
         (seq bell
              (print (nl @ ''Box breathing complete. Notice how you feel.''))))))))))
         (seq (log_session (Plain ''Box breathing'')
                 (of_int (cycles * (inhale + hold + exhale + hold)) / 60) [])
              press_enter)"
  by (simp add: box_breathing_def seq_assoc)

lemma sleeps_box_prefix:
  "sleeps (seq clear
         (seq (print_centered (Plain ''Box Breathing Exercise''))
         (seq (print [])
         (seq (print line)
         (seq bell
         (seq (time_sleep (12 / 10))
         (seq (box_cycles cycles inhale hold exhale 1 (nat cycles))
         (seq bell
              (print bye)))))))))
     (0 + (0 + (0 + (0 + (0 + (12 / 10 + (real (nat cycles) * (real (nat inhale) + 2 * real (nat hold) + real (nat exhale)) + (0 + 0))))))))"
  by (intro sleeps_seq sleeps_clear sleeps_print sleeps_print_centered sleeps_bell
        sleeps_time_sleep sleeps_box_cycles)

lemma log_then_enter:
  assumes "ctrl_c w = None" and "stdin w = l # ls"
  shows "seq (log_session knd d nts) press_enter w =
           (Returns (),
            w\<lparr>clock := stl (clock w), stdin := ls,
              trace := trace w @ [Ask ''Press Enter to return to menu...''],
              log_file := Some ((case log_file w of None \<Rightarrow> [Header] | Some rows \<Rightarrow> rows)
                 @ [Row \<lparr>timestamp = shd (clock w), kind = knd, duration_min = d, notes' = nts\<rparr>])\<rparr>)"
  using assms by (simp add: io_defs Let_def split: option.splits)

text \<open>
  Claim C7. A run of \<^verbatim>\<open>box_breathing\<close> with positive \<open>cycles\<close>, \<open>inhale\<close>,
  \<open>hold\<close> and \<open>exhale\<close> that is not interrupted, and whose closing prompt is
  answered, returns; its cycles count down \<open>cycles * (inhale + 2 * hold + exhale)\<close>
  seconds, one second per count (the whole run sleeps 1.2 seconds more, the pause before
  the first cycle), and the row it appends to the log has that number divided by 60 as
  its \<open>duration_min\<close>. The witness is the run with 2 cycles of 4, 4 and 4 seconds:
  32 seconds and \<open>32 / 60\<close> minutes.
\<close>

theorem box_breathing_duration:
  assumes "0 < cycles" and "0 < inhale" and "0 < hold" and "0 < exhale"
    and "ctrl_c w = None" and "stdin w = l # ls"
  shows "\<exists>counted evs.
           box_cycles cycles inhale hold exhale 1 (nat cycles) w
             = (Returns (), w\<lparr>trace := trace w @ counted\<rparr>)
         \<and> slept counted = of_int (cycles * (inhale + 2 * hold + exhale))
         \<and> box_breathing cycles inhale hold exhale w
             = (Returns (),
                w\<lparr>clock := stl (clock w), stdin := ls, trace := trace w @ evs,
                  log_file := Some ((case log_file w of None \<Rightarrow> [Header] | Some rows \<Rightarrow> rows)
                    @ [Row \<lparr>timestamp = shd (clock w), kind = Plain ''Box breathing'',
                             duration_min = of_int (cycles * (inhale + 2 * hold + exhale)) / 60,
                             notes' = []\<rparr>])\<rparr>)
         \<and> slept evs = 12 / 10 + of_int (cycles * (inhale + 2 * hold + exhale))"
proof -
  let ?n = "real (nat cycles) * (real (nat inhale) + 2 * real (nat hold) + real (nat exhale))"
  have n: "?n = of_int (cycles * (inhale + 2 * hold + exhale))"
    using assms(1-4) by simp
  obtain counted where counted:
    "prints (box_cycles cycles inhale hold exhale 1 (nat cycles)) w counted" "slept counted = ?n"
    using sleeps_box_cycles [of cycles inhale hold exhale 1 "nat cycles"] assms(5)
    unfolding sleeps_def by blast
  let ?pre = "seq clear
         (seq (print_centered (Plain ''Box Breathing Exercise''))
         (seq (print [])
         (seq (print (''Cycles: '' @ str_int cycles @ '', Pattern: Inhale '' @ str_int inhale
                 @ ''s '' @ em_dash @ '' Hold '' @ str_int hold
                 @ ''s '' @ em_dash @ '' Exhale '' @ str_int exhale
                 @ ''s '' @ em_dash @ '' Hold '' @ str_int hold @ ''s''))
         (seq bell
         (seq (time_sleep (12 / 10))
         (seq (box_cycles cycles inhale hold exhale 1 (nat cycles))
         (seq bell
              (print (nl @ ''Box breathing complete. Notice how you feel.'')))))))))"
  have "sleeps ?pre (12 / 10 + ?n)"
    using sleeps_box_prefix [of _ cycles inhale hold exhale] by simp
  then obtain pre where pre: "prints ?pre w pre" "slept pre = 12 / 10 + ?n"
    using assms(5) unfolding sleeps_def by blast
  let ?w = "w\<lparr>trace := trace w @ pre\<rparr>"
  let ?d = "real_of_int (cycles * (inhale + hold + exhale + hold)) / 60"
  have "box_breathing cycles inhale hold exhale w
          = seq (log_session (Plain ''Box breathing'') ?d []) press_enter ?w"
    using pre(1) by (simp add: box_breathing_split prints_def seq_def bind_io_def)
  also have "\<dots> = (Returns (),
            ?w\<lparr>clock := stl (clock ?w), stdin := ls,
              trace := trace ?w @ [Ask ''Press Enter to return to menu...''],
              log_file := Some ((case log_file ?w of None \<Rightarrow> [Header] | Some rows \<Rightarrow> rows)
                 @ [Row \<lparr>timestamp = shd (clock ?w), kind = Plain ''Box breathing'',
                          duration_min = ?d, notes' = []\<rparr>])\<rparr>)"
    using assms(5,6) by (intro log_then_enter) simp_all
  finally have run: "box_breathing cycles inhale hold exhale w
      = (Returns (),
                w\<lparr>clock := stl (clock w), stdin := ls,
                  trace := trace w @ (pre @ [Ask ''Press Enter to return to menu...'']),
                  log_file := Some ((case log_file w of None \<Rightarrow> [Header] | Some rows \<Rightarrow> rows)
                    @ [Row \<lparr>timestamp = shd (clock w), kind = Plain ''Box breathing'',
                             duration_min = of_int (cycles * (inhale + 2 * hold + exhale)) / 60,
                             notes' = []\<rparr>])\<rparr>)"
    by (simp add: algebra_simps)
  have "slept (pre @ [Ask ''Press Enter to return to menu...'']) = 12 / 10 + ?n"
    using pre(2) by (simp add: slept_append)
  then show ?thesis
    using counted run unfolding n prints_def by blast
qed


theorem box_breathing_duration_witness:
  "\<exists>counted evs.
      box_cycles 2 4 4 4 1 (nat 2) (quiet\<lparr>stdin := [[]]\<rparr>)
        = (Returns (), quiet\<lparr>stdin := [[]], trace := counted\<rparr>)
    \<and> slept counted = 32
    \<and> box_breathing 2 4 4 4 (quiet\<lparr>stdin := [[]]\<rparr>)
        = (Returns (),
           quiet\<lparr>trace := evs,
                 log_file := Some [Header, Row \<lparr>timestamp = 0, kind = Plain ''Box breathing'',
                                              duration_min = 32 / 60, notes' = []\<rparr>]\<rparr>)
    \<and> slept evs = 12 / 10 + 32"
  using box_breathing_duration [of 2 4 4 4 "quiet\<lparr>stdin := [[]]\<rparr>" "[]" "[]"]
  by (simp add: quiet_def)

section \<open>Sequences of queries to the cue cursor\<close>

lemma due_take: "due script e i = take (length (due script e i)) (drop i script)"
  by (simp add: due_def takeWhile_eq_take [symmetric])

lemma due_offsets: "c \<in> set (due script e i) \<Longrightarrow> of_int (fst c) \<le> e"
  by (auto simp: due_def dest: set_takeWhileD)

lemma last_cursors_ge: "i \<le> last (i # cursors script es i)"
proof (induction es arbitrary: i)
  case Nil
  show ?case by simp
next
  case (Cons e es)
  have "i + length (due script e i) \<le> last ((i + length (due script e i)) # cursors script es (i + length (due script e i)))"
    by (rule Cons.IH)
  then show ?case
    by simp
qed

lemma take_drop_join:
  "take k (drop i xs) @ take m (drop (i + k) xs) = take (k + m) (drop i xs)"
  by (metis add.commute drop_drop take_add)

lemma ticks_run:
  "ticks script es i w =
     (Returns (cursors script es i),
      w\<lparr>trace := trace w
           @ cue_events (take (last (i # cursors script es i) - i) (drop i script))\<rparr>)"
proof (induction es arbitrary: i w)
  case Nil
  show ?case
    by (simp add: ret_def cue_events_def)
next
  case (Cons e es)
  let ?k = "length (due script e i)"
  let ?m = "last ((i + ?k) # cursors script es (i + ?k)) - (i + ?k)"
  have ge: "i + ?k \<le> last ((i + ?k) # cursors script es (i + ?k))"
    by (rule last_cursors_ge)
  have "cue_events (due script e i) @ cue_events (take ?m (drop (i + ?k) script))
          = cue_events (take ?k (drop i script) @ take ?m (drop (i + ?k) script))"
    using due_take [of script e i] by (simp add: cue_events_append)
  also have "\<dots> = cue_events (take (?k + ?m) (drop i script))"
    by (simp only: take_drop_join)
  also have "?k + ?m = last (i # cursors script (e # es) i) - i"
    using ge by simp
  finally show ?case
    by (simp add: play_due_eq Cons.IH bind_io_def ret_def)
qed

lemma due_from_prefix:
  assumes "i \<le> length script" and "\<forall>n<i. of_int (fst (script ! n)) \<le> e"
  shows "i + length (due script e i) = cnt script e"
proof -
  let ?P = "\<lambda>c::cue. of_int (fst c) \<le> e"
  have "\<forall>c \<in> set (take i script). ?P c"
  proof
    fix c
    assume "c \<in> set (take i script)"
    then obtain n where "n < i" "c = script ! n"
      by (auto simp: in_set_conv_nth)
    then show "?P c"
      using assms(2) by simp
  qed
  then have "takeWhile ?P (take i script @ drop i script)
               = take i script @ takeWhile ?P (drop i script)"
    by (intro takeWhile_append2) auto
  then have "takeWhile ?P script = take i script @ takeWhile ?P (drop i script)"
    by simp
  then have "length (takeWhile ?P script)
               = length (take i script @ takeWhile ?P (drop i script))"
    by (rule arg_cong)
  then have "length (takeWhile ?P script) = i + length (takeWhile ?P (drop i script))"
    using assms(1) by simp
  then show ?thesis
    by (simp add: due_def cnt_def)
qed

lemma cnt_le: "cnt script e \<le> length script"
  by (simp add: cnt_def length_takeWhile_le)

lemma below_cnt: "n < cnt script e \<Longrightarrow> of_int (fst (script ! n)) \<le> e"
  unfolding cnt_def
  by (metis (mono_tags, lifting) nth_mem set_takeWhileD takeWhile_nth)

lemma cursors_cnt:
  assumes "sorted es" and "i \<le> length script"
    and "\<forall>n<i. \<forall>e\<in>set es. of_int (fst (script ! n)) \<le> e"
  shows "cursors script es i = map (cnt script) es"
  using assms
proof (induction es arbitrary: i)
  case Nil
  show ?case by simp
next
  case (Cons e es)
  have step: "i + length (due script e i) = cnt script e"
    using Cons.prems by (intro due_from_prefix) simp_all
  have "\<forall>n<cnt script e. \<forall>e'\<in>set es. of_int (fst (script ! n)) \<le> e'"
  proof (intro allI impI ballI)
    fix n e'
    assume "n < cnt script e" and "e' \<in> set es"
    then have "of_int (fst (script ! n)) \<le> e" and "e \<le> e'"
      using below_cnt Cons.prems(1) by auto
    then show "of_int (fst (script ! n)) \<le> e'"
      by simp
  qed
  then have "cursors script es (cnt script e) = map (cnt script) es"
    using Cons.prems(1) cnt_le by (intro Cons.IH) simp_all
  then show ?case
    by (simp add: step)
qed

lemma cnt_sorted:
  assumes "sorted (map fst script)" and "n < length script"
  shows "n < cnt script e \<longleftrightarrow> of_int (fst (script ! n)) \<le> e"
proof
  assume "n < cnt script e"
  then show "of_int (fst (script ! n)) \<le> e"
    by (rule below_cnt)
next
  assume due: "of_int (fst (script ! n)) \<le> e"
  show "n < cnt script e"
  proof (rule ccontr)
    assume "\<not> n < cnt script e"
    then have k: "cnt script e \<le> n" "cnt script e < length script"
      using assms(2) by simp_all
    then have "\<not> of_int (fst (script ! cnt script e)) \<le> e"
      unfolding cnt_def by (metis (mono_tags, lifting) nth_length_takeWhile)
    moreover have "fst (script ! cnt script e) \<le> fst (script ! n)"
      using assms k by (metis length_map nth_map sorted_nth_mono)
    ultimately show False
      using due by linarith
  qed
qed


text \<open>
  Claim C3, as stated, fails: it says that every cue is emitted exactly once over the
  sequence. A cue whose offset no query reaches is never emitted: with the script
  \<^verbatim>\<open>[(5, "B")]\<close> and the elapsed times 0 and 1 both runs return the cursor 0 and print
  nothing.
\<close>

theorem ticks_counterexample:
  "sorted (map fst [(5 :: int, ''B'')]) \<and> sorted [0, 1 :: real]
   \<and> ticks [(5, ''B'')] [0, 1] 0 quiet = (Returns [0, 0], quiet)
   \<and> cue_texts (trace (snd (ticks [(5, ''B'')] [0, 1] 0 quiet))) \<noteq> map snd [(5 :: int, ''B'')]"
  by (simp add: play_due.simps io_defs quiet_def)

text \<open>
  Claim C3, amended. For a script with non-decreasing offsets and a non-decreasing
  sequence of elapsed times, queried from the cursor 0: the cue \<open>n\<close> is behind the cursor
  after the query \<open>j\<close> exactly when its offset is at most the elapsed time of that query;
  what the whole sequence prints is the texts of the first \<open>k\<close> cues, in script order and
  each once, where \<open>k\<close> is the last cursor. So a cue is emitted once if its offset is at
  most the last elapsed time, and not at all otherwise. And every single run of the loop
  prints consecutive cues from its cursor on, none with an offset above its elapsed time.
\<close>

theorem ticks_emit_due_cues:
  assumes "sorted (map fst script)" and "sorted es"
  shows "(\<exists>cs evs.
            ticks script es 0 w = (Returns cs, w\<lparr>trace := trace w @ evs\<rparr>)
          \<and> length cs = length es
          \<and> (\<forall>j<length es. \<forall>n<length script.
                 n < cs ! j \<longleftrightarrow> of_int (fst (script ! n)) \<le> es ! j)
          \<and> last (0 # cs) \<le> length script
          \<and> cue_texts evs = map snd (take (last (0 # cs)) script))
       \<and> (\<forall>e i w'. \<exists>now.
            play_due script e i w'
              = (Returns (i + length now), w'\<lparr>trace := trace w' @ cue_events now\<rparr>)
          \<and> now = take (length now) (drop i script)
          \<and> (\<forall>c\<in>set now. of_int (fst c) \<le> e))"
proof -
  let ?cs = "cursors script es 0"
  let ?evs = "cue_events (take (last (0 # ?cs)) script)"
  have cs: "?cs = map (cnt script) es"
    using assms(2) by (intro cursors_cnt) simp_all
  have run: "ticks script es 0 w = (Returns ?cs, w\<lparr>trace := trace w @ ?evs\<rparr>)"
    using ticks_run [of script es 0 w] by simp
  have len: "length ?cs = length es"
    by (simp add: cs)
  have timing: "\<forall>j<length es. \<forall>n<length script.
                 n < ?cs ! j \<longleftrightarrow> of_int (fst (script ! n)) \<le> es ! j"
    using assms(1) by (simp add: cs cnt_sorted)
  have "last (0 # ?cs) \<in> set (0 # ?cs)"
    by (rule last_in_set) simp
  then have bound: "last (0 # ?cs) \<le> length script"
    using cnt_le by (auto simp: cs)
  have texts: "cue_texts ?evs = map snd (take (last (0 # ?cs)) script)"
    by (rule cue_texts_cue_events)
  have call: "\<exists>now.
            play_due script e i w'
              = (Returns (i + length now), w'\<lparr>trace := trace w' @ cue_events now\<rparr>)
          \<and> now = take (length now) (drop i script)
          \<and> (\<forall>c\<in>set now. of_int (fst c) \<le> e)" for e i w'
    using play_due_eq [of script e i w'] due_take [of script e i] due_offsets [of _ script e i]
    by blast
  show ?thesis
    using run len timing bound texts call by blast
qed

theorem ticks_emit_due_cues_witness:
  "sorted (map fst scenario) \<and> sorted [0, 6, 12 :: real]
   \<and> (\<exists>cs evs. ticks scenario [0, 6, 12] 0 quiet = (Returns cs, quiet\<lparr>trace := evs\<rparr>)
         \<and> cs = [1, 3, 4]
         \<and> cue_texts evs = map snd (take (last (0 # cs)) scenario)
         \<and> cue_texts evs = [''A'', ''B'', ''C'', ''D''])"
proof -
  have a: "sorted (map fst scenario)" and b: "sorted [0, 6, 12 :: real]"
    by (simp_all add: scenario_def)
  have run: "fst (ticks scenario [0, 6, 12] 0 quiet) = Returns [1, 3, 4]"
    by (simp add: play_due.simps io_defs quiet_def scenario_def)
  from ticks_emit_due_cues [OF a b, of quiet]
  obtain cs evs where t: "ticks scenario [0, 6, 12] 0 quiet = (Returns cs, quiet\<lparr>trace := trace quiet @ evs\<rparr>)"
    "cue_texts evs = map snd (take (last (0 # cs)) scenario)"
    by blast
  from t(1) run have cs: "cs = [1, 3, 4]"
    by simp
  have "cue_texts evs = [''A'', ''B'', ''C'', ''D'']"
    using t(2) by (simp add: cs scenario_def)
  then show ?thesis
    using a b t cs by (auto simp: quiet_def)
qed

section \<open>The cursor of a guided session\<close>

lemma keeps_bind:
  assumes "\<And>a b c. R a b \<Longrightarrow> R b c \<Longrightarrow> R a c" and "keeps R m" and "\<And>a. keeps R (f a)"
  shows "keeps R (bind_io m f)"
  unfolding keeps_def
proof
  fix w
  have m: "R w (snd (m w))"
    using assms(2) by (simp add: keeps_def)
  show "R w (snd (bind_io m f w))"
  proof (cases "m w")
    case (Pair r w1)
    show ?thesis
    proof (cases r)
      case (Returns a)
      have "R w1 (snd (f a w1))"
        using assms(3) by (simp add: keeps_def)
      then show ?thesis
        using m Pair Returns assms(1) by (auto simp: bind_io_def)
    next
      case (Raises e)
      then show ?thesis
        using m Pair by (simp add: bind_io_def)
    next
      case Starved
      then show ?thesis
        using m Pair by (simp add: bind_io_def)
    qed
  qed
qed

lemma keeps_seq:
  assumes "\<And>a b c. R a b \<Longrightarrow> R b c \<Longrightarrow> R a c" and "keeps R m" and "keeps R k"
  shows "keeps R (seq m k)"
  unfolding seq_def using assms by (intro keeps_bind) simp_all

lemma no_cue_trans: "no_cue a b \<Longrightarrow> no_cue b c \<Longrightarrow> no_cue a c"
  by (auto simp: no_cue_def cue_texts_append)

lemma no_cue_refl: "no_cue w w"
  by (simp add: no_cue_def)

lemmas quiet_bind = keeps_bind [of no_cue, OF no_cue_trans]
lemmas quiet_seq = keeps_seq [of no_cue, OF no_cue_trans]

lemma quiet_ret: "keeps no_cue (ret a)"
  by (simp add: keeps_def ret_def no_cue_refl)

lemma quiet_raise: "keeps no_cue (raise e)"
  by (simp add: keeps_def raise_def no_cue_refl)

lemma quiet_starved: "keeps no_cue starved"
  by (simp add: keeps_def starved_def no_cue_refl)

lemma quiet_time_time: "keeps no_cue time_time"
  by (simp add: keeps_def time_time_def no_cue_def)

lemma quiet_interruptible: "keeps no_cue interruptible"
  by (simp add: keeps_def interruptible_def no_cue_def split: option.splits nat.splits)

lemma quiet_write: "keeps no_cue (say (Write s))"
  by (simp add: keeps_def say_def no_cue_def)

lemma quiet_sleep: "keeps no_cue (time_sleep d)"
proof -
  have "keeps no_cue (say (Sleep d))"
    by (simp add: keeps_def say_def no_cue_def)
  then show ?thesis
    unfolding time_sleep_def by (intro quiet_seq quiet_interruptible)
qed

lemma quiet_progress_line: "keeps no_cue (progress_line total_seconds prefix elapsed)"
  by (simp add: progress_line_def quiet_ret quiet_raise)

lemma quiet_progress_loop: "keeps no_cue (progress_loop n total_seconds prefix start)"
proof (induction n)
  case 0
  show ?case
    by (simp add: quiet_starved)
next
  case (Suc n)
  show ?case
    unfolding progress_loop.simps Let_def
    by (intro quiet_bind quiet_seq quiet_time_time quiet_write quiet_sleep Suc)
       (auto intro!: quiet_ret quiet_bind quiet_seq quiet_write quiet_sleep quiet_progress_line Suc)
qed

lemma quiet_progress_bar: "keeps no_cue (progress_bar n total_seconds prefix)"
  unfolding progress_bar_def
  by (intro quiet_bind quiet_seq quiet_time_time quiet_write quiet_progress_loop)


lemma seq_ret_result: "seq m (ret x) w = (Returns y, w') \<Longrightarrow> y = x"
  by (auto simp: seq_def bind_io_def ret_def split: prod.splits outcome.splits)

lemma due_length: "i + length (due script e i) \<le> max i (length script)"
proof -
  have "length (due script e i) \<le> length (drop i script)"
    unfolding due_def by (rule length_takeWhile_le)
  then show ?thesis
    by simp
qed

lemma guided_tick_effect:
  assumes "guided_tick n script total_seconds start_time i w = (r, w1)"
    and "i \<le> length script"
  shows "\<exists>k evs. trace w1 = trace w @ evs
          \<and> cue_texts evs = map snd (take k (drop i script))
          \<and> i + k \<le> length script
          \<and> (\<forall>i'. r = Returns (Some i') \<longrightarrow> i' = i + k)"
proof (cases "total_seconds \<le> shd (clock w) - start_time")
  case True
  then have "r = Returns None" "trace w1 = trace w"
    using assms(1) by (auto simp: guided_tick_def io_defs)
  then show ?thesis
    using assms(2) by (intro exI [of _ 0] exI [of _ "[]"]) simp
next
  case False
  let ?e = "shd (clock w) - start_time"
  let ?k = "length (due script ?e i)"
  let ?w2 = "w\<lparr>clock := stl (clock w), trace := trace w @ cue_events (due script ?e i)\<rparr>"
  let ?rest = "seq (progress_bar n (max 0 (total_seconds - ?e)) ''Guided:'') (ret (Some (i + ?k)))"
  have run: "?rest ?w2 = (r, w1)"
    using assms(1) False by (simp add: guided_tick_def bind_io_def time_time_def play_due_eq Let_def)
  have "keeps no_cue ?rest"
    by (intro quiet_seq quiet_progress_bar quiet_ret)
  then have "no_cue ?w2 w1"
    using run by (metis keeps_def snd_conv)
  then obtain bev where bev: "trace w1 = trace ?w2 @ bev" "cue_texts bev = []"
    by (auto simp: no_cue_def)
  have "trace w1 = trace w @ (cue_events (due script ?e i) @ bev)"
    using bev(1) by simp
  moreover have "cue_texts (cue_events (due script ?e i) @ bev) = map snd (take ?k (drop i script))"
    using bev(2) due_take [of script ?e i] by (simp add: cue_texts_append cue_texts_cue_events)
  moreover have "i + ?k \<le> length script"
    using due_length [of i script ?e] assms(2) by simp
  moreover have "\<forall>i'. r = Returns (Some i') \<longrightarrow> i' = i + ?k"
    using run seq_ret_result by fastforce
  ultimately show ?thesis
    by blast
qed

lemma shown_cues_step:
  assumes "shown_cues script w0 i w"
    and "guided_tick n script total_seconds start_time i w = (r, w1)"
  shows "\<exists>i1. i \<le> i1 \<and> shown_cues script w0 i1 w1 \<and> (\<forall>i'. r = Returns (Some i') \<longrightarrow> i' = i1)"
proof -
  from assms(1) obtain evs where evs: "i \<le> length script" "trace w = trace w0 @ evs"
      "cue_texts evs = map snd (take i script)"
    by (auto simp: shown_cues_def)
  from guided_tick_effect [OF assms(2) evs(1)]
  obtain k new where new: "trace w1 = trace w @ new"
      "cue_texts new = map snd (take k (drop i script))" "i + k \<le> length script"
      "\<forall>i'. r = Returns (Some i') \<longrightarrow> i' = i + k"
    by blast
  have "take (i + k) script = take i script @ take k (drop i script)"
    by (rule take_add)
  then have "cue_texts (evs @ new) = map snd (take (i + k) script)"
    using evs(3) new(2) by (simp add: cue_texts_append)
  moreover have "trace w1 = trace w0 @ (evs @ new)"
    using evs(2) new(1) by simp
  ultimately have "shown_cues script w0 (i + k) w1"
    using new(3) unfolding shown_cues_def by blast
  then show ?thesis
    using new(4) by (intro exI [of _ "i + k"]) simp
qed

lemma shown_cues_loop:
  assumes "shown_cues script w0 i w"
    and "guided_loop n script total_seconds start_time i w = (r, w1)"
  shows "\<exists>i1. i \<le> i1 \<and> shown_cues script w0 i1 w1"
  using assms
proof (induction n arbitrary: i w)
  case 0
  then show ?case
    by (auto simp: starved_def)
next
  case (Suc n)
  obtain r2 w2 where tick: "guided_tick n script total_seconds start_time i w = (r2, w2)"
    by (cases "guided_tick n script total_seconds start_time i w")
  from shown_cues_step [OF Suc.prems(1) tick]
  obtain i2 where i2: "i \<le> i2" "shown_cues script w0 i2 w2"
      "\<forall>i'. r2 = Returns (Some i') \<longrightarrow> i' = i2"
    by blast
  show ?case
  proof (cases "\<exists>i'. r2 = Returns (Some i')")
    case True
    then have "r2 = Returns (Some i2)"
      using i2(3) by auto
    then have "guided_loop n script total_seconds start_time i2 w2 = (r, w1)"
      using Suc.prems(2) tick by (simp add: bind_io_def)
    from Suc.IH [OF i2(2) this] show ?thesis
      using i2(1) by (meson le_trans)
  next
    case False
    then have "w1 = w2"
      using Suc.prems(2) tick
      by (cases r2) (auto simp: bind_io_def ret_def split: option.splits)
    then show ?thesis
      using i2 by blast
  qed
qed

text \<open>
  Claim C10. At the head of every pass of the loop of a guided session the cursor \<open>i\<close>
  is at most the length of the script, and the centred lines printed since the loop was
  entered are exactly the texts of the cues before the cursor, in script order and each
  once. A pass never decreases the cursor. And in whatever way the loop ends from there
  (it returns, it is interrupted, or the model stops following it), what has been printed
  by then is again the cues before some cursor that is not smaller.
\<close>

theorem cursor_invariant:
  assumes "at_tick script total_seconds start_time w0 i w"
  shows "i \<le> length script
       \<and> (\<exists>evs. trace w = trace w0 @ evs \<and> cue_texts evs = map snd (take i script))
       \<and> (\<forall>n i' w'. guided_tick n script total_seconds start_time i w = (Returns (Some i'), w')
             \<longrightarrow> i \<le> i')
       \<and> (\<forall>n r w'. guided_loop n script total_seconds start_time i w = (r, w')
             \<longrightarrow> (\<exists>i'. i \<le> i' \<and> i' \<le> length script
                   \<and> (\<exists>evs. trace w' = trace w0 @ evs
                          \<and> cue_texts evs = map snd (take i' script))))"
proof -
  have inv: "shown_cues script w0 i w"
    using assms
  proof (induction rule: at_tick.induct)
    case entry
    show ?case
      by (simp add: shown_cues_def)
  next
    case (pass i w n i' w')
    from shown_cues_step [OF pass.IH pass.hyps(2)] show ?case
      by auto
  qed
  have "i \<le> i'" if "guided_tick n script total_seconds start_time i w = (Returns (Some i'), w')"
    for n i' w'
    using shown_cues_step [OF inv that] by auto
  moreover have "\<exists>i'. i \<le> i' \<and> i' \<le> length script
                   \<and> (\<exists>evs. trace w' = trace w0 @ evs
                          \<and> cue_texts evs = map snd (take i' script))"
    if "guided_loop n script total_seconds start_time i w = (r, w')" for n r w'
    using shown_cues_loop [OF inv that] by (auto simp: shown_cues_def)
  ultimately show ?thesis
    using inv unfolding shown_cues_def by blast
qed


lemma guided_loop_unfold:
  "guided_loop n script total_seconds start_time i =
     (if n = 0 then starved
      else bind_io (guided_tick (n - 1) script total_seconds start_time i) (\<lambda>r.
             case r of
               None \<Rightarrow> ret ()
             | Some i' \<Rightarrow> guided_loop (n - 1) script total_seconds start_time i'))"
  by (cases n) simp_all

lemma progress_loop_unfold:
  "progress_loop n total_seconds prefix start =
     (if n = 0 then starved
      else bind_io time_time (\<lambda>now.
       let elapsed = now - start in
       if elapsed \<ge> total_seconds then ret ()
       else bind_io (progress_line total_seconds prefix elapsed) (\<lambda>line.
              seq (say (Write line))
             (seq (time_sleep (1 / 2))
                  (progress_loop (n - 1) total_seconds prefix start)))))"
  by (cases n) (simp_all add: Let_def cong: if_cong)

lemmas run_defs = guided_session_def io_defs guided_tick_def progress_bar_def
  progress_line_def play_due.simps Let_def guided_loop_unfold progress_loop_unfold

theorem cursor_invariant_witness:
  "fst (guided_tick 3 scenario 10 100 0 at_start) = Returns (Some 1)
   \<and> 1 \<le> length scenario
   \<and> (\<exists>evs. trace (snd (guided_tick 3 scenario 10 100 0 at_start)) = trace at_start @ evs
          \<and> cue_texts evs = map snd (take 1 scenario))"
proof -
  have r: "fst (guided_tick 3 scenario 10 100 0 at_start) = Returns (Some 1)"
    by (simp add: run_defs at_start_def scenario_def)
  then have "guided_tick 3 scenario 10 100 0 at_start
               = (Returns (Some 1), snd (guided_tick 3 scenario 10 100 0 at_start))"
    by (metis prod.collapse)
  then have "at_tick scenario 10 100 at_start 1 (snd (guided_tick 3 scenario 10 100 0 at_start))"
    by (rule at_tick.pass [OF at_tick.entry])
  from cursor_invariant [OF this] r show ?thesis
    by blast
qed

section \<open>Interrupted sessions\<close>

lemma same_log_trans: "same_log a b \<Longrightarrow> same_log b c \<Longrightarrow> same_log a c"
  by (simp add: same_log_def)

lemmas log_bind = keeps_bind [of same_log, OF same_log_trans]
lemmas log_seq = keeps_seq [of same_log, OF same_log_trans]

lemma log_ret: "keeps same_log (ret a)"
  by (simp add: keeps_def ret_def same_log_def)

lemma log_raise: "keeps same_log (raise e)"
  by (simp add: keeps_def raise_def same_log_def)

lemma log_starved: "keeps same_log starved"
  by (simp add: keeps_def starved_def same_log_def)

lemma log_say: "keeps same_log (say e)"
  by (simp add: keeps_def say_def same_log_def)

lemma log_time_time: "keeps same_log time_time"
  by (simp add: keeps_def time_time_def same_log_def)

lemma log_interruptible: "keeps same_log interruptible"
  by (simp add: keeps_def interruptible_def same_log_def split: option.splits nat.splits)

lemma log_read_line: "keeps same_log read_line"
  by (simp add: keeps_def read_line_def same_log_def split: list.splits)

lemma log_read_log: "keeps same_log read_log"
  by (simp add: keeps_def read_log_def same_log_def)

lemma log_time_sleep: "keeps same_log (time_sleep d)"
  unfolding time_sleep_def by (intro log_seq log_say log_interruptible)

lemma log_input: "keeps same_log (input p)"
  unfolding input_def by (intro log_seq log_say log_interruptible log_read_line)

lemma log_clear: "keeps same_log clear"
  by (simp add: clear_def log_say)

lemma log_bell: "keeps same_log bell"
  by (simp add: bell_def log_say)

lemma log_print: "keeps same_log (print s)"
  by (simp add: print_def log_say)

lemma log_print_centered: "keeps same_log (print_centered s)"
  by (simp add: print_centered_def log_say)

lemma log_press_enter: "keeps same_log press_enter"
  unfolding press_enter_def by (intro log_bind log_input log_ret)

lemma log_progress_line: "keeps same_log (progress_line total_seconds prefix elapsed)"
  by (simp add: progress_line_def log_ret log_raise)

lemma log_progress_loop: "keeps same_log (progress_loop n total_seconds prefix start)"
proof (induction n)
  case 0
  show ?case
    by (simp add: log_starved)
next
  case (Suc n)
  show ?case
    unfolding progress_loop.simps Let_def
    by (intro log_bind log_time_time)
       (auto intro!: log_ret log_bind log_seq log_say log_time_sleep log_progress_line Suc)
qed

lemma log_progress_bar: "keeps same_log (progress_bar n total_seconds prefix)"
  unfolding progress_bar_def
  by (intro log_bind log_seq log_time_time log_say log_progress_loop)

lemma log_play_due: "keeps same_log (play_due script elapsed i)"
  by (simp add: keeps_def play_due_eq same_log_def)

lemma log_guided_tick: "keeps same_log (guided_tick n script total_seconds start_time i)"
  unfolding guided_tick_def Let_def
  by (intro log_bind log_time_time)
     (auto intro!: log_ret log_bind log_seq log_play_due log_progress_bar)

lemma log_guided_loop: "keeps same_log (guided_loop n script total_seconds start_time i)"
proof (induction n arbitrary: i)
  case 0
  show ?case
    by (simp add: log_starved)
next
  case (Suc n)
  show ?case
    unfolding guided_loop.simps
    by (intro log_bind log_guided_tick) (auto intro!: log_ret Suc split: option.splits)
qed

lemma log_count_down: "keeps same_log (count_down label n)"
  by (induction n) (auto intro!: log_ret log_seq log_say log_time_sleep)

lemma log_box_cycles: "keeps same_log (box_cycles cycles inhale hold exhale c k)"
  by (induction k arbitrary: c) (auto intro!: log_ret log_seq log_print log_count_down)

lemma log_scan_parts: "keeps same_log (scan_parts fuel per_part idx ps)"
  by (induction ps arbitrary: idx)
     (auto intro!: log_ret log_seq log_print log_print_centered log_progress_bar)

lemma log_list_rows: "keeps same_log (list_rows rs)"
  by (induction rs) (auto intro!: log_ret log_seq log_say)

lemma log_print_lines: "keeps same_log (print_lines ls)"
  by (induction ls) (auto intro!: log_ret log_seq log_print)

lemma log_show_log: "keeps same_log show_log"
  unfolding show_log_def Let_def
  by (intro log_seq log_bind log_clear log_read_log)
     (auto intro!: log_seq log_print log_print_centered log_press_enter log_raise log_list_rows
           split: option.splits)

lemma log_menu_screen: "keeps same_log menu_screen"
  unfolding menu_screen_def
  by (intro log_seq log_clear log_print log_print_centered log_print_lines)

lemma log_convert: "keeps same_log (convert parse s)"
  by (simp add: convert_def log_ret log_raise split: option.splits)

lemma log_input_or: "keeps same_log (input_or p d)"
  unfolding input_or_def by (intro log_bind log_input log_ret)


lemma abort_safe_keeps:
  assumes "keeps same_log m"
  shows "abort_safe m"
  unfolding abort_safe_def
proof (intro allI impI)
  fix w r w'
  assume "m w = (r, w')"
  then have "log_file w' = log_file w"
    using assms by (metis keeps_def same_log_def snd_conv)
  then show "log_file w' = log_file w
        \<or> (r \<noteq> Raises ValueError
           \<and> (r = Raises KeyboardInterrupt \<longrightarrow> (\<exists>evs p. trace w' = evs @ [Ask p])))"
    by simp
qed

lemma abort_safe_bind:
  assumes "keeps same_log m" and "\<And>a. abort_safe (f a)"
  shows "abort_safe (bind_io m f)"
  unfolding abort_safe_def
proof (intro allI impI)
  fix w r w'
  assume run: "bind_io m f w = (r, w')"
  obtain r1 w1 where m: "m w = (r1, w1)"
    by (cases "m w")
  then have log1: "log_file w1 = log_file w"
    using assms(1) by (metis keeps_def same_log_def snd_conv)
  show "log_file w' = log_file w
        \<or> (r \<noteq> Raises ValueError
           \<and> (r = Raises KeyboardInterrupt \<longrightarrow> (\<exists>evs p. trace w' = evs @ [Ask p])))"
  proof (cases r1)
    case (Returns a)
    then have "f a w1 = (r, w')"
      using run m by (simp add: bind_io_def)
    then show ?thesis
      using assms(2) [of a] log1 unfolding abort_safe_def by metis
  next
    case (Raises e)
    then show ?thesis
      using run m log1 by (simp add: bind_io_def)
  next
    case Starved
    then show ?thesis
      using run m log1 by (simp add: bind_io_def)
  qed
qed

lemma abort_safe_seq:
  assumes "keeps same_log m" and "abort_safe k"
  shows "abort_safe (seq m k)"
  unfolding seq_def using assms by (intro abort_safe_bind) simp_all

lemma press_enter_outcome:
  assumes "press_enter w = (r, w')"
  shows "r \<noteq> Raises ValueError
       \<and> (r = Raises KeyboardInterrupt \<longrightarrow> (\<exists>evs p. trace w' = evs @ [Ask p]))"
  using assms
  by (auto simp: io_defs split: option.splits nat.splits list.splits)

lemma abort_safe_log_enter: "abort_safe (seq (log_session knd d nts) press_enter)"
  unfolding abort_safe_def
proof (intro allI impI)
  fix w r w'
  assume run: "seq (log_session knd d nts) press_enter w = (r, w')"
  obtain w1 where "log_session knd d nts w = (Returns (), w1)"
    by (simp add: log_session_def bind_io_def time_time_def Let_def)
  then have "press_enter w1 = (r, w')"
    using run by (simp add: seq_def bind_io_def)
  then show "log_file w' = log_file w
        \<or> (r \<noteq> Raises ValueError
           \<and> (r = Raises KeyboardInterrupt \<longrightarrow> (\<exists>evs p. trace w' = evs @ [Ask p])))"
    using press_enter_outcome by blast
qed

lemma abort_safe_then:
  assumes "abort_safe m"
  shows "abort_safe (seq m (ret x))"
  unfolding abort_safe_def
proof (intro allI impI)
  fix w r w'
  assume run: "seq m (ret x) w = (r, w')"
  obtain r1 w1 where m: "m w = (r1, w1)"
    by (cases "m w")
  then have safe: "log_file w1 = log_file w
        \<or> (r1 \<noteq> Raises ValueError
           \<and> (r1 = Raises KeyboardInterrupt \<longrightarrow> (\<exists>evs p. trace w1 = evs @ [Ask p])))"
    using assms unfolding abort_safe_def by blast
  show "log_file w' = log_file w
        \<or> (r \<noteq> Raises ValueError
           \<and> (r = Raises KeyboardInterrupt \<longrightarrow> (\<exists>evs p. trace w' = evs @ [Ask p])))"
  proof (cases r1)
    case (Returns a)
    then have "r = Returns x" "w' = w1"
      using run m by (simp_all add: seq_def bind_io_def ret_def)
    then show ?thesis
      using safe Returns by auto
  next
    case (Raises e)
    then have "r = Raises e" "w' = w1"
      using run m by (simp_all add: seq_def bind_io_def)
    then show ?thesis
      using safe Raises by auto
  next
    case Starved
    then have "r = Starved" "w' = w1"
      using run m by (simp_all add: seq_def bind_io_def)
    then show ?thesis
      using safe Starved by auto
  qed
qed

lemma abort_safe_try:
  assumes "abort_safe m" and "keeps same_log h"
  shows "abort_safe (try_except m ValueError h)"
  unfolding abort_safe_def
proof (intro allI impI)
  fix w r w'
  assume run: "try_except m ValueError h w = (r, w')"
  obtain r1 w1 where m: "m w = (r1, w1)"
    by (cases "m w")
  then have safe: "log_file w1 = log_file w
        \<or> (r1 \<noteq> Raises ValueError
           \<and> (r1 = Raises KeyboardInterrupt \<longrightarrow> (\<exists>evs p. trace w1 = evs @ [Ask p])))"
    using assms(1) unfolding abort_safe_def by blast
  show "log_file w' = log_file w
        \<or> (r \<noteq> Raises ValueError
           \<and> (r = Raises KeyboardInterrupt \<longrightarrow> (\<exists>evs p. trace w' = evs @ [Ask p])))"
  proof (cases "r1 = Raises ValueError")
    case True
    then have "h w1 = (r, w')"
      using run m by (simp add: try_except_def)
    then have "log_file w' = log_file w1"
      using assms(2) by (metis keeps_def same_log_def snd_conv)
    then show ?thesis
      using safe True by simp
  next
    case False
    then have "r = r1" "w' = w1"
      using run m by (cases r1; simp add: try_except_def)+
    then show ?thesis
      using safe by simp
  qed
qed

lemma abort_safe_guided_session: "abort_safe (guided_session fuel script duration)"
  unfolding guided_session_def Let_def
  by (intro abort_safe_seq abort_safe_bind abort_safe_log_enter
        log_clear log_time_time log_bell log_guided_loop log_print_centered)

lemma abort_safe_custom_timer: "abort_safe (custom_timer fuel duration)"
  unfolding custom_timer_def
  by (intro abort_safe_seq abort_safe_log_enter
        log_clear log_bell log_progress_bar log_print_centered)

lemma abort_safe_box_breathing: "abort_safe (box_breathing cycles inhale hold exhale)"
  unfolding box_breathing_def
  by (intro abort_safe_seq abort_safe_log_enter
        log_clear log_bell log_print log_print_centered log_time_sleep log_box_cycles)

lemma abort_safe_body_scan: "abort_safe (body_scan fuel duration)"
  unfolding body_scan_def Let_def
  by (intro abort_safe_seq abort_safe_log_enter
        log_clear log_bell log_print_centered log_time_sleep log_scan_parts)

lemma abort_safe_menu_step: "abort_safe (menu_step pyint pyfloat fuel)"
  unfolding menu_step_def Let_def
  apply (intro abort_safe_seq abort_safe_bind log_menu_screen log_input)
  apply (simp only: split: if_splits)
  apply (intro conjI impI abort_safe_then abort_safe_try abort_safe_bind abort_safe_seq
      abort_safe_guided_session abort_safe_box_breathing abort_safe_body_scan
      abort_safe_keeps [OF log_show_log]
      log_input log_input_or log_convert log_seq log_bind log_print log_time_sleep log_ret
      log_clear log_print_centered)
   apply (auto intro!: abort_safe_custom_timer abort_safe_keeps [OF log_raise]
      abort_safe_keeps [OF log_ret] abort_safe_keeps [OF log_print_centered]
      abort_safe_keeps [OF log_time_sleep])
  done


lemma abort_safe_at_sleep:
  assumes "abort_safe m" and "m w = (Raises KeyboardInterrupt, w')" and "trace w' = evs @ [Sleep d]"
  shows "log_file w' = log_file w"
proof -
  have "log_file w' = log_file w \<or> (\<exists>evs p. trace w' = evs @ [Ask p])"
    using assms(1,2) unfolding abort_safe_def by blast
  then show ?thesis
    using assms(3) by auto
qed

text \<open>
  Claim C8. A pending Ctrl-C is delivered at a blocking call. Up to the call of
  \<^verbatim>\<open>log_session\<close> the blocking calls of a session are its sleeps, so a session
  interrupted before completion is one whose trace ends with a \<open>Sleep\<close>. For each of the
  four sessions, and for a whole pass of the menu, such a run leaves the log file exactly
  as it found it: no row, no header, nothing partial. The menu does not catch the
  interrupt (its handlers are for \<^verbatim>\<open>ValueError\<close>), and the top level catches it,
  prints the farewell and returns.
\<close>

theorem interrupt_leaves_log:
  "(guided_session fuel script duration w = (Raises KeyboardInterrupt, w')
      \<and> trace w' = evs @ [Sleep d] \<longrightarrow> log_file w' = log_file w)
 \<and> (custom_timer fuel duration w = (Raises KeyboardInterrupt, w')
      \<and> trace w' = evs @ [Sleep d] \<longrightarrow> log_file w' = log_file w)
 \<and> (box_breathing cycles inhale hold exhale w = (Raises KeyboardInterrupt, w')
      \<and> trace w' = evs @ [Sleep d] \<longrightarrow> log_file w' = log_file w)
 \<and> (body_scan fuel minutes w = (Raises KeyboardInterrupt, w')
      \<and> trace w' = evs @ [Sleep d] \<longrightarrow> log_file w' = log_file w)
 \<and> (menu_step pyint pyfloat fuel w = (Raises KeyboardInterrupt, w')
      \<and> trace w' = evs @ [Sleep d] \<longrightarrow> log_file w' = log_file w)
 \<and> (menu_step pyint pyfloat fuel w = (Raises KeyboardInterrupt, w')
      \<longrightarrow> main_menu pyint pyfloat (Suc fuel) w = (Raises KeyboardInterrupt, w'))
 \<and> (main_menu pyint pyfloat fuel w = (Raises KeyboardInterrupt, w')
      \<longrightarrow> main pyint pyfloat fuel w =
            (Returns (),
             w'\<lparr>trace := trace w' @ [Print (nl @ nl @ ''Session interrupted. Take care.'')]\<rparr>))"
proof -
  have m1: "main_menu pyint pyfloat (Suc fuel) w = (Raises KeyboardInterrupt, w')"
    if "menu_step pyint pyfloat fuel w = (Raises KeyboardInterrupt, w')"
    using that by (simp add: bind_io_def)
  have m2: "main pyint pyfloat fuel w =
            (Returns (),
             w'\<lparr>trace := trace w' @ [Print (nl @ nl @ ''Session interrupted. Take care.'')]\<rparr>)"
    if "main_menu pyint pyfloat fuel w = (Raises KeyboardInterrupt, w')"
    using that by (simp add: main_def try_except_def print_def say_def)
  note g1 = abort_safe_at_sleep [OF abort_safe_guided_session, of fuel script duration w w' evs d]
  note g2 = abort_safe_at_sleep [OF abort_safe_custom_timer, of fuel duration w w' evs d]
  note g3 = abort_safe_at_sleep [OF abort_safe_box_breathing, of cycles inhale hold exhale w w' evs d]
  note g4 = abort_safe_at_sleep [OF abort_safe_body_scan, of fuel minutes w w' evs d]
  note g5 = abort_safe_at_sleep [OF abort_safe_menu_step, of pyint pyfloat fuel w w' evs d]
  show ?thesis
    using m1 m2 g1 g2 g3 g4 g5 by blast
qed

lemma count_down_unfold:
  "count_down label n =
     (if n = 0 then ret ()
      else seq (say (Write (cr @ label @ '': '' @ fmt_2d (int n) @ '' '')))
          (seq (time_sleep 1) (count_down label (n - 1))))"
  by (cases n) simp_all

lemma box_cycles_unfold:
  "box_cycles cycles inhale hold exhale c k =
     (if k = 0 then ret ()
      else seq (print (nl @ ''Cycle '' @ str_int c @ ''/'' @ str_int cycles))
          (seq (count_down ''Inhale  '' (nat inhale))
          (seq (count_down ''Hold    '' (nat hold))
          (seq (count_down ''Exhale  '' (nat exhale))
          (seq (count_down ''Hold    '' (nat hold))
          (seq (print [])
               (box_cycles cycles inhale hold exhale (c + 1) (k - 1))))))))"
  by (cases k) simp_all

lemma main_menu_unfold:
  "main_menu pyint pyfloat n =
     (if n = 0 then starved
      else bind_io (menu_step pyint pyfloat (n - 1)) (\<lambda>again.
             if again then main_menu pyint pyfloat (n - 1) else ret ()))"
  by (cases n) (simp_all cong: if_cong)

lemma interrupted_step:
  "\<exists>evs. menu_step plain_int plain_float 0 interrupted
           = (Raises KeyboardInterrupt,
              quiet\<lparr>trace := evs @ [Sleep 1]\<rparr>)"
  by (simp add: menu_step_def menu_screen_def interrupted_def quiet_def io_defs strip_def
        is_space_def input_or_def convert_def plain_int_def digit_of_def box_breathing_def
        count_down_unfold box_cycles_unfold)


theorem interrupt_leaves_log_witness:
  "\<exists>evs. menu_step plain_int plain_float 0 interrupted
           = (Raises KeyboardInterrupt, quiet\<lparr>trace := evs @ [Sleep 1]\<rparr>)
       \<and> log_file (quiet\<lparr>trace := evs @ [Sleep 1]\<rparr>) = log_file interrupted
       \<and> main plain_int plain_float (Suc 0) interrupted
           = (Returns (),
              quiet\<lparr>trace := (evs @ [Sleep 1])
                        @ [Print (nl @ nl @ ''Session interrupted. Take care.'')]\<rparr>)"
proof -
  obtain evs where step: "menu_step plain_int plain_float 0 interrupted
           = (Raises KeyboardInterrupt, quiet\<lparr>trace := evs @ [Sleep 1]\<rparr>)"
    using interrupted_step by blast
  have tr: "trace (quiet\<lparr>trace := evs @ [Sleep 1]\<rparr>) = evs @ [Sleep 1]"
    by simp
  note t = interrupt_leaves_log [where w = interrupted
      and w' = "quiet\<lparr>trace := evs @ [Sleep 1]\<rparr>" and evs = evs and d = 1
      and pyint = plain_int and pyfloat = plain_float]
  from t [where fuel = 0] step tr
  have log: "log_file (quiet\<lparr>trace := evs @ [Sleep 1]\<rparr>) = log_file interrupted"
    and menu: "main_menu plain_int plain_float (Suc 0) interrupted
           = (Raises KeyboardInterrupt, quiet\<lparr>trace := evs @ [Sleep 1]\<rparr>)"
    by blast+
  from t [where fuel = "Suc 0"] menu
  have "main plain_int plain_float (Suc 0) interrupted
           = (Returns (),
              quiet\<lparr>trace := evs @ [Sleep 1]\<rparr>\<lparr>trace := trace (quiet\<lparr>trace := evs @ [Sleep 1]\<rparr>)
                        @ [Print (nl @ nl @ ''Session interrupted. Take care.'')]\<rparr>)"
    by blast
  then have "main plain_int plain_float (Suc 0) interrupted
           = (Returns (),
              quiet\<lparr>trace := (evs @ [Sleep 1])
                        @ [Print (nl @ nl @ ''Session interrupted. Take care.'')]\<rparr>)"
    by simp
  then show ?thesis
    using step log by blast
qed

section \<open>The scenario of a guided session, and sessions of no length\<close>

lemmas fmt_defs = countdown_def mins_left_def secs_left_def filled_def percent_def py_int_def
  floordiv_def pymod_def bar_len_def fmt_02d_def digits.simps bar_def str_mul_def

lemma launch_run:
  "guided_session 4 scenario (1 / 6) launch =
    (Returns (),
     \<lparr>clock = sconst 112, stdin = [], ctrl_c = None,
      trace = [Clear, Bell, Print [], Centered (Plain ''A''),
               Write (cr @ ''Guided: [------------------------------] 00:10 remaining''),
               Sleep (1 / 2),
               Write (cr @ ''Guided: [##################------------] 00:04 remaining''),
               Sleep (1 / 2),
               Write clear_line,
               Bell,
               Centered (Plain complete_message),
               Ask ''Press Enter to return to menu...''],
      log_file = Some [Header, Row \<lparr>timestamp = 112, kind = Interp ''Guided '' (1 / 6) '' min'',
                                     duration_min = 1 / 6, notes' = []\<rparr>]\<rparr>)"
  by (simp add: run_defs launch_def scenario_def fmt_defs complete_message_def)
     (simp add: eval_nat_numeral)

text \<open>
  Claim C1, as stated, fails. In the run from \<open>launch\<close> the session sees the elapsed
  times 0, 6 and 12 of the scenario. It prints the cue "A" and no other cue: the first
  pass of the outer loop hands the whole remaining time to \<^verbatim>\<open>progress_bar\<close>, which
  returns only when it is over, so the second pass finds the time up and breaks. The last
  thing written to the progress line is the blank line that clears it; no line shows a
  full bar.
\<close>

theorem guided_scenario_counterexample:
  "guided_session 4 scenario (1 / 6) launch =
    (Returns (),
     \<lparr>clock = sconst 112, stdin = [], ctrl_c = None,
      trace = [Clear, Bell, Print [], Centered (Plain ''A''),
               Write (cr @ ''Guided: [------------------------------] 00:10 remaining''),
               Sleep (1 / 2),
               Write (cr @ ''Guided: [##################------------] 00:04 remaining''),
               Sleep (1 / 2),
               Write clear_line,
               Bell,
               Centered (Plain complete_message),
               Ask ''Press Enter to return to menu...''],
      log_file = Some [Header, Row \<lparr>timestamp = 112, kind = Interp ''Guided '' (1 / 6) '' min'',
                                     duration_min = 1 / 6, notes' = []\<rparr>]\<rparr>)
   \<and> cue_texts (trace (snd (guided_session 4 scenario (1 / 6) launch))) = [''A'', complete_message]"
  by (simp add: launch_run)

lemma bind_ReturnsD:
  "bind_io m f w = (Returns y, w') \<Longrightarrow> \<exists>a w1. m w = (Returns a, w1) \<and> f a w1 = (Returns y, w')"
  by (auto simp: bind_io_def split: prod.splits outcome.splits)

lemma seq_ReturnsD:
  "seq m k w = (Returns y, w') \<Longrightarrow> \<exists>w1. m w = (Returns (), w1) \<and> k w1 = (Returns y, w')"
  unfolding seq_def by (drule bind_ReturnsD) auto

lemma press_enter_Returns:
  assumes "press_enter w = (Returns (), w')"
  shows "trace w' = trace w @ [Ask ''Press Enter to return to menu...'']
       \<and> log_file w' = log_file w"
  using assms by (auto simp: io_defs split: option.splits nat.splits list.splits)

lemma guided_session_Returns:
  assumes "guided_session n script duration w = (Returns (), w')"
  shows "\<exists>evs stamp.
           trace w' = trace w @ [Clear, Bell] @ evs
              @ [Bell, Centered (Plain complete_message), Ask ''Press Enter to return to menu...'']
         \<and> log_file w' = Some ((case log_file w of None \<Rightarrow> [Header] | Some rows \<Rightarrow> rows)
              @ [Row \<lparr>timestamp = stamp, kind = Interp ''Guided '' duration '' min'',
                       duration_min = duration, notes' = []\<rparr>])"
proof -
  let ?wc = "w\<lparr>clock := stl (clock w), trace := trace w @ [Clear, Bell]\<rparr>"
  let ?after = "seq bell
    (seq (print_centered (Plain complete_message))
    (seq (log_session (Interp ''Guided '' duration '' min'') duration [])
         press_enter))"
  have "seq (guided_loop n script (duration * 60) (shd (clock w)) 0) ?after ?wc = (Returns (), w')"
    using assms
    by (simp add: guided_session_def Let_def seq_def bind_io_def clear_def bell_def say_def
          time_time_def complete_message_def)
  then obtain wd where loop: "guided_loop n script (duration * 60) (shd (clock w)) 0 ?wc = (Returns (), wd)"
    and after: "?after wd = (Returns (), w')"
    by (blast dest: seq_ReturnsD)
  have "shown_cues script ?wc 0 ?wc"
    by (simp add: shown_cues_def)
  from shown_cues_loop [OF this loop]
  obtain evs where evs: "trace wd = trace ?wc @ evs"
    by (auto simp: shown_cues_def)
  have log: "log_file wd = log_file w"
    using loop log_guided_loop [of n script "duration * 60" "shd (clock w)" 0]
    by (metis (no_types, lifting) keeps_def same_log_def snd_conv select_convs(5) surjective
        update_convs(1) update_convs(4))
  let ?mid = "seq bell
    (seq (print_centered (Plain complete_message))
         (log_session (Interp ''Guided '' duration '' min'') duration []))"
  have "seq ?mid press_enter wd = (Returns (), w')"
    using after by (simp add: seq_assoc)
  then obtain wf where mid: "?mid wd = (Returns (), wf)" and enter: "press_enter wf = (Returns (), w')"
    by (blast dest: seq_ReturnsD)
  have wf: "trace wf = trace wd @ [Bell, Centered (Plain complete_message)]"
    "log_file wf = Some ((case log_file wd of None \<Rightarrow> [Header] | Some rows \<Rightarrow> rows)
                @ [Row \<lparr>timestamp = shd (clock wd), kind = Interp ''Guided '' duration '' min'',
                         duration_min = duration, notes' = []\<rparr>])"
    using mid
    by (auto simp: seq_def bind_io_def bell_def print_centered_def say_def log_session_def
          time_time_def Let_def split: option.splits)
  from press_enter_Returns [OF enter]
  have "trace w' = trace w @ [Clear, Bell] @ evs
              @ [Bell, Centered (Plain complete_message), Ask ''Press Enter to return to menu...'']"
    and "log_file w' = Some ((case log_file w of None \<Rightarrow> [Header] | Some rows \<Rightarrow> rows)
              @ [Row \<lparr>timestamp = shd (clock wd), kind = Interp ''Guided '' duration '' min'',
                       duration_min = duration, notes' = []\<rparr>])"
    using evs log wf by simp_all
  then show ?thesis
    by blast
qed


lemma filled_below_full:
  assumes "0 \<le> elapsed" and "elapsed < total_seconds"
  shows "filled total_seconds elapsed < 30"
proof -
  have pos: "0 < total_seconds"
    using assms by simp
  then have "30 * elapsed / total_seconds < 30"
    using assms(2) by (simp add: divide_less_eq)
  then have "\<lfloor>30 * elapsed / total_seconds\<rfloor> < 30"
    by (simp add: floor_less_iff)
  then show ?thesis
    using pos assms(1) by (simp add: filled_floor)
qed

lemma guided_tick_done:
  assumes "total_seconds \<le> shd (clock w) - start_time"
  shows "guided_tick n script total_seconds start_time i w
           = (Returns None, w\<lparr>clock := stl (clock w)\<rparr>)"
  using assms by (simp add: guided_tick_def io_defs)

text \<open>
  Claim C1, amended to what the code does by design. For the script of the scenario and
  10 seconds: the inner loop at the elapsed time 0 prints "A" and moves the cursor to 1;
  a pass of the outer loop that finds the elapsed time at 10 or more prints nothing (so
  not "D", whose offset is the total) and ends the loop; the progress bar renders nothing
  once the elapsed time has reached its total, and a bar it renders before has fewer than
  30 filled slots; and a session that returns has cleared the screen, rung the bell at
  the start, and ended with the bell, the completion message and the closing prompt,
  after appending one row with \<open>duration_min = 1 / 6\<close> to the log.
\<close>

theorem guided_scenario_by_design:
  "play_due scenario 0 0 w
     = (Returns 1, w\<lparr>trace := trace w @ [Print [], Centered (Plain ''A'')]\<rparr>)
 \<and> (10 \<le> shd (clock w) - start_time \<longrightarrow>
       guided_tick n scenario 10 start_time i w = (Returns None, w\<lparr>clock := stl (clock w)\<rparr>)
     \<and> guided_loop (Suc n) scenario 10 start_time i w
           = (Returns (), w\<lparr>clock := stl (clock w)\<rparr>))
 \<and> (total_seconds \<le> shd (clock w) - start \<longrightarrow>
       progress_loop (Suc n) total_seconds prefix start w
         = (Returns (), w\<lparr>clock := stl (clock w)\<rparr>))
 \<and> (0 \<le> elapsed \<and> elapsed < total_seconds \<longrightarrow> filled total_seconds elapsed < 30)
 \<and> (guided_session n scenario (1 / 6) w = (Returns (), w') \<longrightarrow>
       (\<exists>evs stamp.
           trace w' = trace w @ [Clear, Bell] @ evs
              @ [Bell, Centered (Plain complete_message), Ask ''Press Enter to return to menu...'']
         \<and> log_file w' = Some ((case log_file w of None \<Rightarrow> [Header] | Some rows \<Rightarrow> rows)
              @ [Row \<lparr>timestamp = stamp, kind = Interp ''Guided '' (1 / 6) '' min'',
                       duration_min = 1 / 6, notes' = []\<rparr>])))"
proof -
  have first: "play_due scenario 0 0 w
     = (Returns 1, w\<lparr>trace := trace w @ [Print [], Centered (Plain ''A'')]\<rparr>)"
    by (simp add: play_due.simps scenario_def io_defs)
  have tick: "guided_tick n scenario 10 start_time i w
                = (Returns None, w\<lparr>clock := stl (clock w)\<rparr>)"
    if "10 \<le> shd (clock w) - start_time"
    using that by (rule guided_tick_done)
  have loop: "guided_loop (Suc n) scenario 10 start_time i w
           = (Returns (), w\<lparr>clock := stl (clock w)\<rparr>)"
    if "10 \<le> shd (clock w) - start_time"
    using tick [OF that] by (simp add: bind_io_def ret_def)
  note render = progress_loop_done [of total_seconds w start n prefix]
  note full = filled_below_full [of elapsed total_seconds]
  note fin = guided_session_Returns [of n scenario "1 / 6" w w']
  show ?thesis
    using first tick loop render full fin by blast
qed

theorem guided_scenario_by_design_witness:
  "guided_tick 0 scenario 10 100 1 (quiet\<lparr>clock := sconst 112\<rparr>)
     = (Returns None, quiet\<lparr>clock := sconst 112\<rparr>)
   \<and> filled 10 6 < 30
   \<and> (\<exists>evs stamp.
         trace (snd (guided_session 4 scenario (1 / 6) launch)) = [Clear, Bell] @ evs
              @ [Bell, Centered (Plain complete_message), Ask ''Press Enter to return to menu...'']
       \<and> log_file (snd (guided_session 4 scenario (1 / 6) launch))
           = Some [Header, Row \<lparr>timestamp = stamp, kind = Interp ''Guided '' (1 / 6) '' min'',
                                  duration_min = 1 / 6, notes' = []\<rparr>])"
proof -
  note t = guided_scenario_by_design [where w = "quiet\<lparr>clock := sconst 112\<rparr>"
      and start_time = 100 and n = 0 and i = 1 and elapsed = 6 and total_seconds = 10]
  have "(10 :: real) \<le> shd (clock (quiet\<lparr>clock := sconst 112\<rparr>)) - 100"
    by simp
  with t have a': "guided_tick 0 scenario 10 100 1 (quiet\<lparr>clock := sconst 112\<rparr>)
     = (Returns None, quiet\<lparr>clock := sconst 112\<rparr>)"
    by simp
  have "(0 :: real) \<le> 6 \<and> (6 :: real) < 10"
    by simp
  with t have b: "filled 10 6 < 30"
    by blast
  let ?w' = "snd (guided_session 4 scenario (1 / 6) launch)"
  have "guided_session 4 scenario (1 / 6) launch = (Returns (), ?w')"
    by (simp add: launch_run)
  with guided_scenario_by_design [where w = launch and w' = ?w' and n = 4]
  have "\<exists>evs stamp.
           trace ?w' = trace launch @ [Clear, Bell] @ evs
              @ [Bell, Centered (Plain complete_message), Ask ''Press Enter to return to menu...'']
         \<and> log_file ?w' = Some ((case log_file launch of None \<Rightarrow> [Header] | Some rows \<Rightarrow> rows)
              @ [Row \<lparr>timestamp = stamp, kind = Interp ''Guided '' (1 / 6) '' min'',
                       duration_min = 1 / 6, notes' = []\<rparr>])"
    by blast
  then have c: "\<exists>evs stamp.
         trace ?w' = [Clear, Bell] @ evs
              @ [Bell, Centered (Plain complete_message), Ask ''Press Enter to return to menu...'']
       \<and> log_file ?w'
           = Some [Header, Row \<lparr>timestamp = stamp, kind = Interp ''Guided '' (1 / 6) '' min'',
                                  duration_min = 1 / 6, notes' = []\<rparr>]"
    by (simp add: launch_def)
  show ?thesis
    using a' b c by blast
qed

lemma custom_timer_guard:
  assumes "pyfloat (strip s) = Some mins" and "mins \<le> 0"
  shows "bind_io (convert pyfloat (strip s))
           (\<lambda>mins. if mins \<le> 0 then raise ValueError else custom_timer fuel mins) w
         = (Raises ValueError, w)"
  using assms by (simp add: convert_def io_defs)

text \<open>
  Claim C2 holds for the silent timer only (\<open>custom_timer_guard\<close>: the menu raises
  \<^verbatim>\<open>ValueError\<close> before \<^verbatim>\<open>custom_timer\<close> is called). The choices 5 and 6 pass what
  the user typed to the session unchecked: with 0 cycles box breathing runs, and with 0
  minutes the body scan runs; each rings the bell twice and appends a row with the
  duration 0 to the log.
\<close>

theorem nonpositive_sessions_run:
  "(\<exists>evs. menu_step plain_int plain_float 0 zero_cycles
           = (Returns True,
              quiet\<lparr>trace := evs,
                    log_file := Some [Header, Row \<lparr>timestamp = 0, kind = Plain ''Box breathing'',
                                                 duration_min = 0, notes' = []\<rparr>]\<rparr>)
        \<and> filter (\<lambda>e. e = Bell) evs = [Bell, Bell])
 \<and> (\<exists>evs. menu_step plain_int plain_float 1 zero_minutes
           = (Returns True,
              quiet\<lparr>trace := evs,
                    log_file := Some [Header, Row \<lparr>timestamp = 0, kind = Plain ''Body-scan 0 min'',
                                                 duration_min = 0, notes' = []\<rparr>]\<rparr>)
        \<and> filter (\<lambda>e. e = Bell) evs = [Bell, Bell])"
proof -
  have box: "\<exists>evs. menu_step plain_int plain_float 0 zero_cycles
           = (Returns True,
              quiet\<lparr>trace := evs,
                    log_file := Some [Header, Row \<lparr>timestamp = 0, kind = Plain ''Box breathing'',
                                                 duration_min = 0, notes' = []\<rparr>]\<rparr>)
        \<and> filter (\<lambda>e. e = Bell) evs = [Bell, Bell]"
    by (simp add: menu_step_def menu_screen_def zero_cycles_def quiet_def io_defs strip_def
          is_space_def input_or_def convert_def plain_int_def digit_of_def box_breathing_def
          count_down_unfold box_cycles_unfold)
  have scan: "\<exists>evs. menu_step plain_int plain_float 1 zero_minutes
           = (Returns True,
              quiet\<lparr>trace := evs,
                    log_file := Some [Header, Row \<lparr>timestamp = 0, kind = Plain ''Body-scan 0 min'',
                                                 duration_min = 0, notes' = []\<rparr>]\<rparr>)
        \<and> filter (\<lambda>e. e = Bell) evs = [Bell, Bell]"
    by (simp add: menu_step_def menu_screen_def zero_minutes_def quiet_def io_defs strip_def
          is_space_def input_or_def convert_def plain_int_def plain_float_def digit_of_def
          body_scan_def parts_def py_int_def str_int_def digits.simps
          progress_bar_def progress_loop_unfold)
  show ?thesis
    using box scan by blast
qed

section \<open>The outer loop of a guided session makes one pass\<close>

lemma steady_stl:
  assumes "steady c"
  shows "steady (stl c)"
  unfolding steady_def
proof
  fix n
  have "snth c (Suc n) \<le> snth c (Suc (Suc n))"
    using assms unfolding steady_def by blast
  then show "snth (stl c) n \<le> snth (stl c) (Suc n)"
    by simp
qed

lemma steady_from_head:
  assumes "steady c"
  shows "shd c \<le> snth c n"
proof (induction n)
  case 0
  show ?case by simp
next
  case (Suc n)
  have "snth c n \<le> snth c (Suc n)"
    using assms by (simp add: steady_def)
  then show ?case
    using Suc by linarith
qed

lemma not_before_stl:
  assumes "steady c" and "t \<le> shd c"
  shows "not_before t (stl c)"
  unfolding not_before_def
proof
  fix n
  have "shd c \<le> snth c (Suc n)"
    using assms(1) by (rule steady_from_head)
  then show "t \<le> snth (stl c) n"
    using assms(2) by simp
qed

lemma bind_ReturnsE:
  assumes "bind_io m f w = (Returns y, w')"
  obtains a w1 where "m w = (Returns a, w1)" and "f a w1 = (Returns y, w')"
  using bind_ReturnsD [OF assms] that by blast

lemma time_sleep_Returns:
  assumes "time_sleep d w = (Returns (), w')"
  shows "clock w' = clock w"
  using assms by (auto simp: io_defs split: option.splits nat.splits)

lemma progress_loop_late:
  assumes "progress_loop n total_seconds prefix start w = (Returns (), w')"
    and "steady (clock w)"
  shows "steady (clock w') \<and> not_before (start + total_seconds) (clock w')"
  using assms
proof (induction n arbitrary: w)
  case 0
  then show ?case
    by (simp add: starved_def)
next
  case (Suc n)
  let ?now = "shd (clock w)"
  let ?w1 = "w\<lparr>clock := stl (clock w)\<rparr>"
  show ?case
  proof (cases "total_seconds \<le> ?now - start")
    case True
    then have "w' = ?w1"
      using Suc.prems(1) by (simp add: io_defs)
    moreover have "not_before (start + total_seconds) (stl (clock w))"
      using Suc.prems(2) True by (intro not_before_stl) simp_all
    ultimately show ?thesis
      using Suc.prems(2) by (simp add: steady_stl)
  next
    case False
    then have run: "bind_io (progress_line total_seconds prefix (?now - start)) (\<lambda>line.
              seq (say (Write line))
             (seq (time_sleep (1 / 2))
                  (progress_loop n total_seconds prefix start))) ?w1 = (Returns (), w')"
      using Suc.prems(1) by (simp add: bind_io_def time_time_def Let_def)
    then obtain line w2 where line: "progress_line total_seconds prefix (?now - start) ?w1 = (Returns line, w2)"
      and rest: "seq (say (Write line)) (seq (time_sleep (1 / 2))
                  (progress_loop n total_seconds prefix start)) w2 = (Returns (), w')"
      by (rule bind_ReturnsE)
    have w2: "w2 = ?w1"
      using line by (auto simp: progress_line_def ret_def raise_def split: if_splits)
    from rest obtain w3 where "say (Write line) w2 = (Returns (), w3)"
      and rest2: "seq (time_sleep (1 / 2)) (progress_loop n total_seconds prefix start) w3 = (Returns (), w')"
      by (blast dest: seq_ReturnsD)
    then have w3: "clock w3 = stl (clock w)"
      using w2 by (auto simp: say_def)
    from rest2 obtain w4 where "time_sleep (1 / 2) w3 = (Returns (), w4)"
      and loop: "progress_loop n total_seconds prefix start w4 = (Returns (), w')"
      by (blast dest: seq_ReturnsD)
    then have "clock w4 = stl (clock w)"
      using w3 time_sleep_Returns by simp
    then have "steady (clock w4)"
      using Suc.prems(2) by (simp add: steady_stl)
    from Suc.IH [OF loop this] show ?thesis .
  qed
qed

lemma progress_bar_late:
  assumes "progress_bar n total_seconds prefix w = (Returns (), w')"
    and "steady (clock w)"
  shows "steady (clock w') \<and> not_before (shd (clock w) + total_seconds) (clock w')"
proof -
  let ?w1 = "w\<lparr>clock := stl (clock w)\<rparr>"
  have "seq (progress_loop n total_seconds prefix (shd (clock w))) (say (Write clear_line)) ?w1
          = (Returns (), w')"
    using assms(1) by (simp add: progress_bar_def bind_io_def time_time_def)
  then obtain w2 where loop: "progress_loop n total_seconds prefix (shd (clock w)) ?w1 = (Returns (), w2)"
    and "say (Write clear_line) w2 = (Returns (), w')"
    by (blast dest: seq_ReturnsD)
  then have "clock w' = clock w2"
    by (auto simp: say_def)
  moreover have "steady (clock ?w1)"
    using assms(2) by (simp add: steady_stl)
  ultimately show ?thesis
    using progress_loop_late [OF loop] by simp
qed

lemma guided_tick_late:
  assumes "guided_tick n script total_seconds start_time i w = (Returns (Some i'), w')"
    and "steady (clock w)"
  shows "steady (clock w') \<and> not_before (start_time + total_seconds) (clock w')
       \<and> i' = i + length (due script (shd (clock w) - start_time) i)
       \<and> (\<exists>evs. trace w' = trace w @ evs
             \<and> cue_texts evs = map snd (due script (shd (clock w) - start_time) i))"
proof -
  let ?e = "shd (clock w) - start_time"
  let ?k = "length (due script ?e i)"
  let ?w2 = "w\<lparr>clock := stl (clock w), trace := trace w @ cue_events (due script ?e i)\<rparr>"
  have early: "\<not> total_seconds \<le> ?e"
    using assms(1) by (auto simp: guided_tick_def io_defs)
  then have run: "seq (progress_bar n (max 0 (total_seconds - ?e)) ''Guided:'') (ret (Some (i + ?k))) ?w2
                    = (Returns (Some i'), w')"
    using assms(1) by (simp add: guided_tick_def bind_io_def time_time_def play_due_eq Let_def)
  then obtain w3 where pb: "progress_bar n (max 0 (total_seconds - ?e)) ''Guided:'' ?w2 = (Returns (), w3)"
    and "ret (Some (i + ?k)) w3 = (Returns (Some i'), w')"
    by (blast dest: seq_ReturnsD)
  then have same: "w' = w3" "i' = i + ?k"
    by (simp_all add: ret_def)
  have st: "steady (clock ?w2)"
    using assms(2) by (simp add: steady_stl)
  from progress_bar_late [OF pb st]
  have late: "steady (clock w3)"
    "not_before (shd (stl (clock w)) + max 0 (total_seconds - ?e)) (clock w3)"
    by simp_all
  have "shd (clock w) \<le> shd (stl (clock w))"
    using steady_from_head [OF assms(2), of 1] by simp
  then have "start_time + total_seconds \<le> shd (stl (clock w)) + max 0 (total_seconds - ?e)"
    by simp
  then have nb: "not_before (start_time + total_seconds) (clock w3)"
    using late(2) unfolding not_before_def by (meson order_trans)
  have "keeps no_cue (progress_bar n (max 0 (total_seconds - ?e)) ''Guided:'')"
    by (rule quiet_progress_bar)
  then have "no_cue ?w2 w3"
    using pb by (metis keeps_def snd_conv)
  then obtain bev where "trace w3 = trace ?w2 @ bev" "cue_texts bev = []"
    by (auto simp: no_cue_def)
  then have "trace w3 = trace w @ (cue_events (due script ?e i) @ bev)"
    and "cue_texts (cue_events (due script ?e i) @ bev) = map snd (due script ?e i)"
    by (simp_all add: cue_texts_append cue_texts_cue_events)
  then show ?thesis
    using late(1) nb same by blast
qed

text \<open>
  Why the cues after the first tick are not shown. With a clock that never runs
  backwards, \<^verbatim>\<open>progress_bar(remaining)\<close> returns only when the session's total time is
  over, so the pass after the first one breaks: a loop that returns has printed the cues
  that were due at its first read of the clock, and no others.
\<close>

lemma guided_loop_one_pass:
  assumes "guided_loop n script total_seconds start_time 0 w = (Returns (), w')"
    and "steady (clock w)"
  shows "\<exists>evs. trace w' = trace w @ evs
           \<and> cue_texts evs =
               (if total_seconds \<le> shd (clock w) - start_time then []
                else map snd (due script (shd (clock w) - start_time) 0))"
proof (cases n)
  case 0
  then show ?thesis
    using assms(1) by (simp add: starved_def)
next
  case (Suc m)
  let ?e = "shd (clock w) - start_time"
  from assms(1) Suc obtain r w1 where tick: "guided_tick m script total_seconds start_time 0 w = (Returns r, w1)"
    and rest: "(case r of None \<Rightarrow> ret () | Some i' \<Rightarrow> guided_loop m script total_seconds start_time i') w1
                 = (Returns (), w')"
    by (auto elim: bind_ReturnsE)
  show ?thesis
  proof (cases r)
    case None
    have "total_seconds \<le> ?e"
    proof (rule ccontr)
      assume "\<not> total_seconds \<le> ?e"
      then have "seq (progress_bar m (max 0 (total_seconds - ?e)) ''Guided:'')
                   (ret (Some (0 + length (due script ?e 0))))
                   (w\<lparr>clock := stl (clock w),
                      trace := trace w @ cue_events (due script ?e 0)\<rparr>) = (Returns None, w1)"
        using tick None
        by (simp add: guided_tick_def bind_io_def time_time_def play_due_eq Let_def)
      from seq_ret_result [OF this] show False
        by simp
    qed
    moreover from this have "w1 = w\<lparr>clock := stl (clock w)\<rparr>"
      using tick by (simp add: guided_tick_done)
    moreover have "w' = w1"
      using rest None by (simp add: ret_def)
    ultimately show ?thesis
      by simp
  next
    case (Some i1)
    from guided_tick_late [OF tick [unfolded Some] assms(2)]
    obtain evs where late: "steady (clock w1)" "not_before (start_time + total_seconds) (clock w1)"
      and evs: "trace w1 = trace w @ evs" "cue_texts evs = map snd (due script ?e 0)"
      by blast
    have early: "\<not> total_seconds \<le> ?e"
      using tick Some by (auto simp: guided_tick_def io_defs)
    have loop: "guided_loop m script total_seconds start_time i1 w1 = (Returns (), w')"
      using rest Some by simp
    have up: "total_seconds \<le> shd (clock w1) - start_time"
      using late(2) unfolding not_before_def by (metis add.commute le_diff_eq snth.simps(1))
    have "w' = w1\<lparr>clock := stl (clock w1)\<rparr>"
    proof (cases m)
      case 0
      then show ?thesis
        using loop by (simp add: starved_def)
    next
      case (Suc k)
      then show ?thesis
        using loop guided_tick_done [OF up, of k script i1]
        by (simp add: bind_io_def ret_def)
    qed
    then show ?thesis
      using evs early by simp
  qed
qed

section \<open>The progress line in double precision\<close>




lemma round_even_of_int [simp]: "round_even (of_int n) = n"
  unfolding round_even_def Let_def by simp










lemma round_even_numeral [simp]: "round_even (numeral n) = numeral n"
  using round_even_of_int [of "numeral n"] by simp


































end
